theory Spec2Isabelle
  imports Main
begin

section \<open>Raw storage and element lifetimes\<close>

text \<open>
  The source (\<open>vector.h\<close>) is a class template \<open>Vector<T>\<close> on top of \<open>RawMemory<T>\<close>.
  A \<open>T*\<close> is modelled as a pair of a block address and a slot offset; address 0 is
  \<open>nullptr\<close>. Every block is a list of slots, a slot being raw storage or a live object.
  An address that has no storage behind it (null, never handed out, or released) has the
  empty slot list.

  A \<open>size_t\<close> value is a \<open>nat\<close> up to \<open>SIZE_MAX\<close>, here that of a 64-bit platform. The byte
  count \<open>n * sizeof(T)\<close> of \<open>Allocate\<close> is computed with the wrap-around of \<open>size_t\<close>: its
  \<open>n\<close> is an argument that the caller of \<open>Reserve\<close>, \<open>Resize\<close> or \<open>Vector(size)\<close> chooses
  freely. The other arithmetic of the source is on the size, the capacity and the
  indices of a vector that exists. There \<open>size_ - 1\<close> on an empty vector is a failed
  precondition, and \<open>size_ * 2\<close> exceeds \<open>SIZE_MAX\<close> only for a vector of at least \<open>2^63\<close>
  elements, for which the byte count of the request wraps as well and the call does
  not return. \<open>operator new\<close> is taken to succeed.
\<close>

definition SIZE_MAX :: nat where
  "SIZE_MAX = 18446744073709551615"

type_synonym ptr = "nat \<times> nat"

datatype 'a slot = Raw | Obj 'a

text \<open>
  \<open>fail_in\<close> is the schedule of the element type's exceptions: \<open>Some k\<close> says that the
  next \<open>k\<close> operations of \<open>T\<close> that are allowed to throw succeed and the one after them
  throws; \<open>None\<close> says that none throws. \<open>constructed\<close> and \<open>destroyed\<close> count the
  completed constructor calls and the destructor calls of \<open>T\<close>. \<open>sizeof_T\<close> is \<open>sizeof(T)\<close>,
  the number of bytes of one object.
\<close>

record 'a world =
  blocks :: "nat \<Rightarrow> 'a slot list"
  next_addr :: nat
  fail_in :: "nat option"
  constructed :: nat
  destroyed :: nat
  sizeof_T :: nat

text \<open>
  The outcome of a call: it returns a value, it leaves by an exception, or it runs into
  a failed \<open>assert\<close> or into undefined behaviour (a read of raw storage, an access
  outside a block, a broken precondition).
\<close>

datatype ('r, 's) res = Done 'r 's | Thrown 's | Undefined

text \<open>What the template knows about \<open>T\<close>, and what its operations compute.\<close>

record 'a traits =
  nothrow_move_constructible :: bool
  copy_constructible :: bool
  nothrow_move_assignable :: bool
  moved_from :: "'a \<Rightarrow> 'a"
  value_init :: 'a

definition ptr_add :: "ptr \<Rightarrow> nat \<Rightarrow> ptr" where
  "ptr_add p k = (fst p, snd p + k)"

definition slot_at :: "'a world \<Rightarrow> ptr \<Rightarrow> 'a slot option" where
  "slot_at w p =
     (if snd p < length (blocks w (fst p)) then Some (blocks w (fst p) ! snd p) else None)"

definition set_slot :: "ptr \<Rightarrow> 'a slot \<Rightarrow> 'a world \<Rightarrow> 'a world" where
  "set_slot p s w = w\<lparr>blocks := (blocks w)(fst p := (blocks w (fst p))[snd p := s])\<rparr>"

definition may_throw :: "bool \<Rightarrow> 'a world \<Rightarrow> (unit, 'a world) res" where
  "may_throw fallible w =
     (if fallible then
        (case fail_in w of
           None \<Rightarrow> Done () w
         | Some 0 \<Rightarrow> Thrown (w\<lparr>fail_in := None\<rparr>)
         | Some (Suc k) \<Rightarrow> Done () (w\<lparr>fail_in := Some k\<rparr>))
      else Done () w)"

text \<open>\<open>new (p) T(...)\<close>, the constructor producing the value \<open>x\<close>.\<close>

definition construct_at :: "bool \<Rightarrow> ptr \<Rightarrow> 'a \<Rightarrow> 'a world \<Rightarrow> (unit, 'a world) res" where
  "construct_at fallible p x w =
     (case slot_at w p of
        Some Raw \<Rightarrow>
          (case may_throw fallible w of
             Done _ w1 \<Rightarrow> Done () ((set_slot p (Obj x) w1)\<lparr>constructed := Suc (constructed w1)\<rparr>)
           | Thrown w1 \<Rightarrow> Thrown w1
           | Undefined \<Rightarrow> Undefined)
      | _ \<Rightarrow> Undefined)"

text \<open>\<open>p->~T()\<close>.\<close>

definition destroy_at :: "ptr \<Rightarrow> 'a world \<Rightarrow> (unit, 'a world) res" where
  "destroy_at p w =
     (case slot_at w p of
        Some (Obj x) \<Rightarrow> Done () ((set_slot p Raw w)\<lparr>destroyed := Suc (destroyed w)\<rparr>)
      | _ \<Rightarrow> Undefined)"

text \<open>\<open>*p = x\<close> on a live object; an assignment that throws leaves its target as it was.\<close>

definition assign_at :: "bool \<Rightarrow> ptr \<Rightarrow> 'a \<Rightarrow> 'a world \<Rightarrow> (unit, 'a world) res" where
  "assign_at fallible p x w =
     (case slot_at w p of
        Some (Obj old) \<Rightarrow>
          (case may_throw fallible w of
             Done _ w1 \<Rightarrow> Done () (set_slot p (Obj x) w1)
           | Thrown w1 \<Rightarrow> Thrown w1
           | Undefined \<Rightarrow> Undefined)
      | _ \<Rightarrow> Undefined)"

text \<open>\<open>new (dst) T(*src)\<close> and \<open>new (dst) T(std::move(*src))\<close>.\<close>

definition copy_construct :: "ptr \<Rightarrow> ptr \<Rightarrow> 'a world \<Rightarrow> (unit, 'a world) res" where
  "copy_construct dst src w =
     (case slot_at w src of
        Some (Obj x) \<Rightarrow> construct_at True dst x w
      | _ \<Rightarrow> Undefined)"

definition move_construct :: "'a traits \<Rightarrow> ptr \<Rightarrow> ptr \<Rightarrow> 'a world \<Rightarrow> (unit, 'a world) res" where
  "move_construct tr dst src w =
     (case slot_at w src of
        Some (Obj x) \<Rightarrow>
          (case construct_at (\<not> nothrow_move_constructible tr) dst x w of
             Done _ w1 \<Rightarrow> Done () (set_slot src (Obj (moved_from tr x)) w1)
           | Thrown w1 \<Rightarrow> Thrown w1
           | Undefined \<Rightarrow> Undefined)
      | _ \<Rightarrow> Undefined)"

text \<open>\<open>*dst = *src\<close> and \<open>*dst = std::move(*src)\<close>.\<close>

definition copy_assign_at :: "ptr \<Rightarrow> ptr \<Rightarrow> 'a world \<Rightarrow> (unit, 'a world) res" where
  "copy_assign_at dst src w =
     (case slot_at w src of
        Some (Obj x) \<Rightarrow> assign_at True dst x w
      | _ \<Rightarrow> Undefined)"

definition move_assign_at :: "'a traits \<Rightarrow> ptr \<Rightarrow> ptr \<Rightarrow> 'a world \<Rightarrow> (unit, 'a world) res" where
  "move_assign_at tr dst src w =
     (case slot_at w src of
        Some (Obj x) \<Rightarrow>
          (case assign_at (\<not> nothrow_move_assignable tr) dst x w of
             Done _ w1 \<Rightarrow> Done () (set_slot src (Obj (moved_from tr x)) w1)
           | Thrown w1 \<Rightarrow> Thrown w1
           | Undefined \<Rightarrow> Undefined)
      | _ \<Rightarrow> Undefined)"

text \<open>A local \<open>T temp_value(...)\<close> and the end of its scope.\<close>

definition construct_local :: "'a world \<Rightarrow> (unit, 'a world) res" where
  "construct_local w =
     (case may_throw True w of
        Done _ w1 \<Rightarrow> Done () (w1\<lparr>constructed := Suc (constructed w1)\<rparr>)
      | Thrown w1 \<Rightarrow> Thrown w1
      | Undefined \<Rightarrow> Undefined)"

definition destroy_local :: "'a world \<Rightarrow> 'a world" where
  "destroy_local w = w\<lparr>destroyed := Suc (destroyed w)\<rparr>"

subsection \<open>The algorithms of \<open><memory>\<close> and \<open><algorithm>\<close> that the source calls\<close>

fun destroy_n :: "ptr \<Rightarrow> nat \<Rightarrow> 'a world \<Rightarrow> (unit, 'a world) res" where
  "destroy_n p 0 w = Done () w"
| "destroy_n p (Suc n) w =
     (case destroy_at p w of
        Done _ w1 \<Rightarrow> destroy_n (ptr_add p 1) n w1
      | Thrown w1 \<Rightarrow> Thrown w1
      | Undefined \<Rightarrow> Undefined)"

text \<open>
  The three \<open>uninitialized_*_n\<close> algorithms destroy what they have constructed when a
  constructor throws, and rethrow. \<open>k\<close> is the number of objects already constructed.
\<close>

fun uninitialized_copy_from :: "ptr \<Rightarrow> ptr \<Rightarrow> nat \<Rightarrow> nat \<Rightarrow> 'a world \<Rightarrow> (unit, 'a world) res" where
  "uninitialized_copy_from first d_first k 0 w = Done () w"
| "uninitialized_copy_from first d_first k (Suc n) w =
     (case copy_construct (ptr_add d_first k) (ptr_add first k) w of
        Done _ w1 \<Rightarrow> uninitialized_copy_from first d_first (Suc k) n w1
      | Thrown w1 \<Rightarrow>
          (case destroy_n d_first k w1 of Done _ w2 \<Rightarrow> Thrown w2 | _ \<Rightarrow> Undefined)
      | Undefined \<Rightarrow> Undefined)"

definition uninitialized_copy_n :: "ptr \<Rightarrow> nat \<Rightarrow> ptr \<Rightarrow> 'a world \<Rightarrow> (unit, 'a world) res" where
  "uninitialized_copy_n first n d_first w = uninitialized_copy_from first d_first 0 n w"

fun uninitialized_move_from ::
  "'a traits \<Rightarrow> ptr \<Rightarrow> ptr \<Rightarrow> nat \<Rightarrow> nat \<Rightarrow> 'a world \<Rightarrow> (unit, 'a world) res" where
  "uninitialized_move_from tr first d_first k 0 w = Done () w"
| "uninitialized_move_from tr first d_first k (Suc n) w =
     (case move_construct tr (ptr_add d_first k) (ptr_add first k) w of
        Done _ w1 \<Rightarrow> uninitialized_move_from tr first d_first (Suc k) n w1
      | Thrown w1 \<Rightarrow>
          (case destroy_n d_first k w1 of Done _ w2 \<Rightarrow> Thrown w2 | _ \<Rightarrow> Undefined)
      | Undefined \<Rightarrow> Undefined)"

definition uninitialized_move_n ::
  "'a traits \<Rightarrow> ptr \<Rightarrow> nat \<Rightarrow> ptr \<Rightarrow> 'a world \<Rightarrow> (unit, 'a world) res" where
  "uninitialized_move_n tr first n d_first w = uninitialized_move_from tr first d_first 0 n w"

fun uninitialized_value_construct_from ::
  "'a traits \<Rightarrow> ptr \<Rightarrow> nat \<Rightarrow> nat \<Rightarrow> 'a world \<Rightarrow> (unit, 'a world) res" where
  "uninitialized_value_construct_from tr first k 0 w = Done () w"
| "uninitialized_value_construct_from tr first k (Suc n) w =
     (case construct_at True (ptr_add first k) (value_init tr) w of
        Done _ w1 \<Rightarrow> uninitialized_value_construct_from tr first (Suc k) n w1
      | Thrown w1 \<Rightarrow>
          (case destroy_n first k w1 of Done _ w2 \<Rightarrow> Thrown w2 | _ \<Rightarrow> Undefined)
      | Undefined \<Rightarrow> Undefined)"

definition uninitialized_value_construct_n ::
  "'a traits \<Rightarrow> ptr \<Rightarrow> nat \<Rightarrow> 'a world \<Rightarrow> (unit, 'a world) res" where
  "uninitialized_value_construct_n tr first n w = uninitialized_value_construct_from tr first 0 n w"

text \<open>\<open>std::copy_n(first, n, d_first)\<close>: copy assignment, front to back.\<close>

fun copy_n :: "ptr \<Rightarrow> nat \<Rightarrow> ptr \<Rightarrow> 'a world \<Rightarrow> (unit, 'a world) res" where
  "copy_n first 0 d_first w = Done () w"
| "copy_n first (Suc n) d_first w =
     (case copy_assign_at d_first first w of
        Done _ w1 \<Rightarrow> copy_n (ptr_add first 1) n (ptr_add d_first 1) w1
      | Thrown w1 \<Rightarrow> Thrown w1
      | Undefined \<Rightarrow> Undefined)"

text \<open>
  \<open>std::move(first, first + n, d_first)\<close>: move assignment, front to back, and
  \<open>std::move_backward(first, first + n, d_last)\<close>: move assignment, back to front.
\<close>

fun std_move :: "'a traits \<Rightarrow> ptr \<Rightarrow> nat \<Rightarrow> ptr \<Rightarrow> 'a world \<Rightarrow> (unit, 'a world) res" where
  "std_move tr first 0 d_first w = Done () w"
| "std_move tr first (Suc n) d_first w =
     (case move_assign_at tr d_first first w of
        Done _ w1 \<Rightarrow> std_move tr (ptr_add first 1) n (ptr_add d_first 1) w1
      | Thrown w1 \<Rightarrow> Thrown w1
      | Undefined \<Rightarrow> Undefined)"

fun move_backward :: "'a traits \<Rightarrow> ptr \<Rightarrow> nat \<Rightarrow> ptr \<Rightarrow> 'a world \<Rightarrow> (unit, 'a world) res" where
  "move_backward tr first 0 d_last w = Done () w"
| "move_backward tr first (Suc n) d_last w =
     (if snd d_last = 0 then Undefined
      else
        (case move_assign_at tr (fst d_last, snd d_last - 1) (ptr_add first n) w of
           Done _ w1 \<Rightarrow> move_backward tr first n (fst d_last, snd d_last - 1) w1
         | Thrown w1 \<Rightarrow> Thrown w1
         | Undefined \<Rightarrow> Undefined))"

section \<open>\<open>RawMemory<T>\<close>\<close>

record RawMemory =
  m_buffer :: nat
  m_capacity :: nat

text \<open>
  \<open>Allocate(n)\<close> asks \<open>operator new\<close> for \<open>n * sizeof(T)\<close> bytes, a product of two \<open>size_t\<close>
  values that wraps. \<open>operator_new\<close> hands out a fresh block of the bytes it is asked for;
  the block has room for as many objects of \<open>T\<close> as fit into these bytes, which are \<open>n\<close>
  when the product did not wrap and fewer when it did.
\<close>

definition size_t_mul :: "nat \<Rightarrow> nat \<Rightarrow> nat" where
  "size_t_mul a b = (a * b) mod (SIZE_MAX + 1)"

definition operator_new :: "nat \<Rightarrow> 'a world \<Rightarrow> nat \<times> 'a world" where
  "operator_new bytes w =
     (next_addr w,
      w\<lparr>blocks := (blocks w)(next_addr w := replicate (bytes div sizeof_T w) Raw),
        next_addr := Suc (next_addr w)\<rparr>)"

definition Allocate :: "nat \<Rightarrow> 'a world \<Rightarrow> nat \<times> 'a world" where
  "Allocate n w = (if n \<noteq> 0 then operator_new (size_t_mul n (sizeof_T w)) w else (0, w))"

definition Deallocate :: "nat \<Rightarrow> 'a world \<Rightarrow> 'a world" where
  "Deallocate buf w = (if buf = 0 then w else w\<lparr>blocks := (blocks w)(buf := [])\<rparr>)"

definition RawMemory_default :: RawMemory where
  "RawMemory_default = \<lparr>m_buffer = 0, m_capacity = 0\<rparr>"

definition RawMemory_sized :: "nat \<Rightarrow> 'a world \<Rightarrow> RawMemory \<times> 'a world" where
  "RawMemory_sized capacity w =
     (case Allocate capacity w of (b, w1) \<Rightarrow> (\<lparr>m_buffer = b, m_capacity = capacity\<rparr>, w1))"

text \<open>
  Move construction and move assignment return the new object and what is left of the
  source. Both release the buffer the destination holds and run no destructor of \<open>T\<close>.
\<close>

definition RawMemory_move_ctor :: "RawMemory \<Rightarrow> 'a world \<Rightarrow> (RawMemory \<times> RawMemory) \<times> 'a world" where
  "RawMemory_move_ctor other w =
     (let w1 = Deallocate (m_buffer RawMemory_default) w
      in ((\<lparr>m_buffer = m_buffer other, m_capacity = m_capacity other\<rparr>,
           \<lparr>m_buffer = 0, m_capacity = 0\<rparr>), w1))"

definition RawMemory_move_assign ::
  "RawMemory \<Rightarrow> RawMemory \<Rightarrow> 'a world \<Rightarrow> (RawMemory \<times> RawMemory) \<times> 'a world" where
  "RawMemory_move_assign this rhs w =
     (let w1 = Deallocate (m_buffer this) w
      in ((\<lparr>m_buffer = m_buffer rhs, m_capacity = m_capacity rhs\<rparr>,
           \<lparr>m_buffer = 0, m_capacity = 0\<rparr>), w1))"

definition RawMemory_dtor :: "RawMemory \<Rightarrow> 'a world \<Rightarrow> 'a world" where
  "RawMemory_dtor this w = Deallocate (m_buffer this) w"

text \<open>\<open>operator+\<close> and \<open>operator[]\<close>, with their assertions.\<close>

definition RawMemory_plus :: "RawMemory \<Rightarrow> nat \<Rightarrow> ptr option" where
  "RawMemory_plus this offset =
     (if offset \<le> m_capacity this then Some (m_buffer this, offset) else None)"

definition RawMemory_index :: "RawMemory \<Rightarrow> nat \<Rightarrow> ptr option" where
  "RawMemory_index this index =
     (if index < m_capacity this then Some (m_buffer this, index) else None)"

definition RawMemory_Swap :: "RawMemory \<Rightarrow> RawMemory \<Rightarrow> RawMemory \<times> RawMemory" where
  "RawMemory_Swap this other = (other, this)"

definition GetAddress :: "RawMemory \<Rightarrow> ptr" where
  "GetAddress this = (m_buffer this, 0)"

section \<open>\<open>Vector<T>\<close>\<close>

text \<open>
  The members \<open>buffer_\<close>, \<open>capacity_\<close>, \<open>data_\<close> and \<open>size_\<close> of the source are the
  fields \<open>m_buffer\<close>, \<open>m_capacity\<close>, \<open>m_data\<close> and \<open>m_size\<close>. A member function takes the
  object and the world and returns both; the sequencing of statements, the unwinding of
  local objects and \<open>try { ... } catch (...) { ...; throw; }\<close> are the three combinators
  below.
\<close>

record Vector =
  m_data :: RawMemory
  m_size :: nat

definition then_do :: "(unit, 's) res \<Rightarrow> ('s \<Rightarrow> ('r, 's) res) \<Rightarrow> ('r, 's) res" where
  "then_do m f = (case m of Done _ s \<Rightarrow> f s | Thrown s \<Rightarrow> Thrown s | Undefined \<Rightarrow> Undefined)"

definition catch_rethrow :: "('r, 's) res \<Rightarrow> ('s \<Rightarrow> (unit, 's) res) \<Rightarrow> ('r, 's) res" where
  "catch_rethrow m h =
     (case m of
        Thrown s \<Rightarrow> (case h s of Done _ s1 \<Rightarrow> Thrown s1 | Thrown s1 \<Rightarrow> Thrown s1 | Undefined \<Rightarrow> Undefined)
      | Done r s \<Rightarrow> Done r s
      | Undefined \<Rightarrow> Undefined)"

definition with_vec :: "Vector \<Rightarrow> ('r, 'a world) res \<Rightarrow> ('r, Vector \<times> 'a world) res" where
  "with_vec v m =
     (case m of Done r w \<Rightarrow> Done r (v, w) | Thrown w \<Rightarrow> Thrown (v, w) | Undefined \<Rightarrow> Undefined)"

definition vbegin :: "Vector \<Rightarrow> ptr" where
  "vbegin v = GetAddress (m_data v)"

definition vend :: "Vector \<Rightarrow> ptr option" where
  "vend v = RawMemory_plus (m_data v) (m_size v)"

definition Size :: "Vector \<Rightarrow> nat" where
  "Size v = m_size v"

definition Capacity :: "Vector \<Rightarrow> nat" where
  "Capacity v = m_capacity (m_data v)"

text \<open>\<open>operator[]\<close>: the address of element \<open>index\<close>, with both assertions.\<close>

definition Vector_index :: "Vector \<Rightarrow> nat \<Rightarrow> ptr option" where
  "Vector_index v index = (if index < m_size v then RawMemory_index (m_data v) index else None)"

definition Vector_default :: Vector where
  "Vector_default = \<lparr>m_data = RawMemory_default, m_size = 0\<rparr>"

definition Vector_sized :: "'a traits \<Rightarrow> nat \<Rightarrow> 'a world \<Rightarrow> (Vector, 'a world) res" where
  "Vector_sized tr sz w =
     (case RawMemory_sized sz w of
        (d, w1) \<Rightarrow>
          (case uninitialized_value_construct_n tr (GetAddress d) sz w1 of
             Done _ w2 \<Rightarrow> Done \<lparr>m_data = d, m_size = sz\<rparr> w2
           | Thrown w2 \<Rightarrow> Thrown (RawMemory_dtor d w2)
           | Undefined \<Rightarrow> Undefined))"

definition Vector_copy_ctor :: "Vector \<Rightarrow> 'a world \<Rightarrow> (Vector, 'a world) res" where
  "Vector_copy_ctor other w =
     (case RawMemory_sized (m_size other) w of
        (d, w1) \<Rightarrow>
          (case uninitialized_copy_n (GetAddress (m_data other)) (m_size other) (GetAddress d) w1 of
             Done _ w2 \<Rightarrow> Done \<lparr>m_data = d, m_size = m_size other\<rparr> w2
           | Thrown w2 \<Rightarrow> Thrown (RawMemory_dtor d w2)
           | Undefined \<Rightarrow> Undefined))"

text \<open>
  The move constructor and the move assignment are \<open>noexcept\<close>; they return the new
  object and what is left of the source, a distinct object.
\<close>

definition Vector_move_ctor :: "Vector \<Rightarrow> 'a world \<Rightarrow> (Vector \<times> Vector) \<times> 'a world" where
  "Vector_move_ctor other w =
     (case RawMemory_move_ctor (m_data other) w of
        ((d, od), w1) \<Rightarrow>
          ((\<lparr>m_data = d, m_size = m_size other\<rparr>, \<lparr>m_data = od, m_size = 0\<rparr>), w1))"

definition Vector_move_assign :: "Vector \<Rightarrow> Vector \<Rightarrow> 'a world \<Rightarrow> (Vector \<times> Vector) \<times> 'a world" where
  "Vector_move_assign this rhs w =
     (case RawMemory_move_assign (m_data this) (m_data rhs) w of
        ((d, rd), w1) \<Rightarrow>
          ((\<lparr>m_data = d, m_size = m_size rhs\<rparr>, \<lparr>m_data = rd, m_size = 0\<rparr>), w1))"

definition Vector_dtor :: "Vector \<Rightarrow> 'a world \<Rightarrow> (unit, 'a world) res" where
  "Vector_dtor this w =
     then_do (destroy_n (vbegin this) (m_size this) w)
       (\<lambda>w1. Done () (RawMemory_dtor (m_data this) w1))"

definition Swap :: "Vector \<Rightarrow> Vector \<Rightarrow> Vector \<times> Vector" where
  "Swap this other =
     (case RawMemory_Swap (m_data this) (m_data other) of
        (d, od) \<Rightarrow> (\<lparr>m_data = d, m_size = m_size other\<rparr>, \<lparr>m_data = od, m_size = m_size this\<rparr>))"

text \<open>
  Copy assignment. \<open>this_addr\<close> and \<open>rhs_addr\<close> are the addresses of the two objects,
  which the source compares; \<open>rhs\<close> is \<open>const\<close>.
\<close>

definition Vector_copy_assign ::
  "nat \<Rightarrow> nat \<Rightarrow> Vector \<Rightarrow> Vector \<times> 'a world \<Rightarrow> (unit, Vector \<times> 'a world) res" where
  "Vector_copy_assign this_addr rhs_addr rhs s =
     (case s of
        (this, w) \<Rightarrow>
          if this_addr \<noteq> rhs_addr then
            if m_size rhs > m_capacity (m_data this) then
              (case Vector_copy_ctor rhs w of
                 Done rhs_copy w1 \<Rightarrow>
                   (case Swap this rhs_copy of
                      (this1, rhs_copy1) \<Rightarrow> with_vec this1 (Vector_dtor rhs_copy1 w1))
               | Thrown w1 \<Rightarrow> Thrown (this, w1)
               | Undefined \<Rightarrow> Undefined)
            else
              (case
                 then_do (copy_n (vbegin rhs) (min (m_size this) (m_size rhs)) (vbegin this) w)
                   (\<lambda>w1. if m_size rhs < m_size this
                      then destroy_n (ptr_add (vbegin this) (m_size rhs)) (m_size this - m_size rhs) w1
                      else (case vend this of
                              None \<Rightarrow> Undefined
                            | Some e \<Rightarrow>
                                uninitialized_copy_n (ptr_add (vbegin rhs) (m_size this))
                                  (m_size rhs - m_size this) e w1))
               of
                 Done _ w2 \<Rightarrow> Done () (this\<lparr>m_size := m_size rhs\<rparr>, w2)
               | Thrown w2 \<Rightarrow> Thrown (this, w2)
               | Undefined \<Rightarrow> Undefined)
          else Done () (this, w))"

text \<open>
  \<open>CopyOrMoveToNewBuffer\<close>: the condition of the source is
  \<open>is_nothrow_move_constructible_v<T> || !is_copy_constructible_v<T>\<close>, written with the
  short circuit of \<open>||\<close>.
\<close>

definition CopyOrMoveToNewBuffer ::
  "'a traits \<Rightarrow> ptr \<Rightarrow> ptr \<Rightarrow> nat \<Rightarrow> 'a world \<Rightarrow> (unit, 'a world) res" where
  "CopyOrMoveToNewBuffer tr from to number w =
     (if (if nothrow_move_constructible tr then True else \<not> copy_constructible tr)
      then uninitialized_move_n tr from number to w
      else uninitialized_copy_n from number to w)"

definition CalcNewCapacity :: "Vector \<Rightarrow> nat" where
  "CalcNewCapacity v = (if m_size v = 0 then 1 else m_size v * 2)"



text \<open>
  \<open>ReallocateMemoryAddingNewElement\<close>: \<open>x\<close> is the value that \<open>T(args...)\<close> constructs.
  The local \<open>new_data\<close> is released on every way out.
\<close>

definition ReallocateMemoryAddingNewElement ::
  "'a traits \<Rightarrow> nat \<Rightarrow> 'a \<Rightarrow> Vector \<times> 'a world \<Rightarrow> (ptr, Vector \<times> 'a world) res" where
  "ReallocateMemoryAddingNewElement tr index x s =
     (case s of
        (v, w) \<Rightarrow>
          (case RawMemory_sized (CalcNewCapacity v) w of
             (new_data, w1) \<Rightarrow>
               (case RawMemory_plus new_data index of
                  None \<Rightarrow> Undefined
                | Some p \<Rightarrow>
                    (case
                       then_do (construct_at True p x w1)
                         (\<lambda>w2. then_do
                            (catch_rethrow
                               (then_do
                                  (CopyOrMoveToNewBuffer tr (vbegin v) (GetAddress new_data) index w2)
                                  (destroy_n (vbegin v) index))
                               (destroy_at p))
                            (\<lambda>w3. if index < m_size v
                               then catch_rethrow
                                      (then_do
                                         (CopyOrMoveToNewBuffer tr (ptr_add (vbegin v) index)
                                            (ptr_add (GetAddress new_data) (index + 1))
                                            (m_size v - index) w3)
                                         (destroy_n (ptr_add (vbegin v) index) (m_size v - index)))
                                      (destroy_n (GetAddress new_data) (index + 1))
                               else Done () w3))
                     of
                       Done _ w4 \<Rightarrow>
                         (case RawMemory_Swap (m_data v) new_data of
                            (d, nd) \<Rightarrow>
                              Done p (v\<lparr>m_data := d, m_size := Suc (m_size v)\<rparr>, RawMemory_dtor nd w4))
                     | Thrown w4 \<Rightarrow> Thrown (v, RawMemory_dtor new_data w4)
                     | Undefined \<Rightarrow> Undefined))))"

definition EmplaceBack :: "'a traits \<Rightarrow> 'a \<Rightarrow> Vector \<times> 'a world \<Rightarrow> (ptr, Vector \<times> 'a world) res" where
  "EmplaceBack tr x s =
     (case s of
        (v, w) \<Rightarrow>
          if m_size v = m_capacity (m_data v)
          then ReallocateMemoryAddingNewElement tr (m_size v) x (v, w)
          else
            (case RawMemory_plus (m_data v) (m_size v) of
               None \<Rightarrow> Undefined
             | Some p \<Rightarrow>
                 (case construct_at True p x w of
                    Done _ w1 \<Rightarrow> Done p (v\<lparr>m_size := Suc (m_size v)\<rparr>, w1)
                  | Thrown w1 \<Rightarrow> Thrown (v, w1)
                  | Undefined \<Rightarrow> Undefined)))"

definition PushBack :: "'a traits \<Rightarrow> 'a \<Rightarrow> Vector \<times> 'a world \<Rightarrow> (unit, Vector \<times> 'a world) res" where
  "PushBack tr value s =
     (case EmplaceBack tr value s of
        Done res s1 \<Rightarrow> Done () s1
      | Thrown s1 \<Rightarrow> Thrown s1
      | Undefined \<Rightarrow> Undefined)"

text \<open>\<open>PopBack\<close>: on an empty vector \<open>size_ - 1\<close> wraps and the assertion of \<open>operator[]\<close> fails.\<close>

definition PopBack :: "Vector \<times> 'a world \<Rightarrow> (unit, Vector \<times> 'a world) res" where
  "PopBack s =
     (case s of
        (v, w) \<Rightarrow>
          if m_size v = 0 then Undefined
          else
            (case RawMemory_index (m_data v) (m_size v - 1) of
               None \<Rightarrow> Undefined
             | Some p \<Rightarrow>
                 (case destroy_at p w of
                    Done _ w1 \<Rightarrow> Done () (v\<lparr>m_size := m_size v - 1\<rparr>, w1)
                  | Thrown w1 \<Rightarrow> Thrown (v, w1)
                  | Undefined \<Rightarrow> Undefined)))"

text \<open>
  \<open>Emplace\<close>: \<open>pos - begin()\<close> is defined for a cursor into the vector's own buffer. In
  the branch that shifts in place the local \<open>temp_value\<close> is destroyed on every way out.
  On an empty vector \<open>size_ - 1\<close> wraps and the assertion of \<open>operator[]\<close> fails; the
  range \<open>[begin() + index, end() - 1)\<close> handed to \<open>std::move_backward\<close> needs
  \<open>index \<le> size_ - 1\<close>.
\<close>

definition Emplace :: "'a traits \<Rightarrow> ptr \<Rightarrow> 'a \<Rightarrow> Vector \<times> 'a world \<Rightarrow> (ptr, Vector \<times> 'a world) res" where
  "Emplace tr pos x s =
     (case s of
        (v, w) \<Rightarrow>
          if fst pos \<noteq> fst (vbegin v) then Undefined
          else
            (let index = snd pos - snd (vbegin v) in
             if index = m_size v then EmplaceBack tr x (v, w)
             else if m_size v = m_capacity (m_data v)
             then ReallocateMemoryAddingNewElement tr index x (v, w)
             else
               (case construct_local w of
                  Done _ w1 \<Rightarrow>
                    (case
                       (case (vend v,
                              if m_size v = 0 then None
                              else RawMemory_index (m_data v) (m_size v - 1)) of
                          (Some e, Some back) \<Rightarrow>
                            then_do (move_construct tr e back w1)
                              (\<lambda>w2. if m_size v - 1 < index then Undefined
                                 else
                                   then_do
                                     (move_backward tr (ptr_add (vbegin v) index)
                                        (m_size v - 1 - index) e w2)
                                     (\<lambda>w3. case RawMemory_index (m_data v) index of
                                        None \<Rightarrow> Undefined
                                      | Some p \<Rightarrow>
                                          assign_at (\<not> nothrow_move_assignable tr) p x w3))
                        | _ \<Rightarrow> Undefined)
                     of
                       Done _ w4 \<Rightarrow>
                         Done (ptr_add (vbegin v) index)
                           (v\<lparr>m_size := Suc (m_size v)\<rparr>, destroy_local w4)
                     | Thrown w4 \<Rightarrow> Thrown (v, destroy_local w4)
                     | Undefined \<Rightarrow> Undefined)
                | Thrown w1 \<Rightarrow> Thrown (v, w1)
                | Undefined \<Rightarrow> Undefined)))"

definition Insert :: "'a traits \<Rightarrow> ptr \<Rightarrow> 'a \<Rightarrow> Vector \<times> 'a world \<Rightarrow> (ptr, Vector \<times> 'a world) res" where
  "Insert tr pos value s = Emplace tr pos value s"

text \<open>
  \<open>Erase\<close>: the range \<open>[begin() + index + 1, end())\<close> handed to \<open>std::move\<close> needs
  \<open>index + 1 \<le> size_\<close>, and then \<open>size_ - 1\<close> does not wrap.
\<close>

definition Erase :: "'a traits \<Rightarrow> ptr \<Rightarrow> Vector \<times> 'a world \<Rightarrow> (ptr, Vector \<times> 'a world) res" where
  "Erase tr pos s =
     (case s of
        (v, w) \<Rightarrow>
          if fst pos \<noteq> fst (vbegin v) then Undefined
          else
            (let index = snd pos - snd (vbegin v) in
             case vend v of
               None \<Rightarrow> Undefined
             | Some e \<Rightarrow>
                 if snd e < snd (vbegin v) + index + 1 then Undefined
                 else
                   (case
                      then_do
                        (std_move tr (ptr_add (ptr_add (vbegin v) index) 1)
                           (snd e - (snd (vbegin v) + index + 1)) (ptr_add (vbegin v) index) w)
                        (\<lambda>w1. case RawMemory_index (m_data v) (m_size v - 1) of
                           None \<Rightarrow> Undefined
                         | Some back \<Rightarrow> destroy_at back w1)
                    of
                      Done _ w2 \<Rightarrow>
                        Done (ptr_add (vbegin v) index) (v\<lparr>m_size := m_size v - 1\<rparr>, w2)
                    | Thrown w2 \<Rightarrow> Thrown (v, w2)
                    | Undefined \<Rightarrow> Undefined)))"

section \<open>Abstraction and concrete runs\<close>

text \<open>
  \<open>fits w n\<close>: the byte count of \<open>n\<close> objects of \<open>T\<close> is a \<open>size_t\<close> value, so that
  \<open>Allocate(n)\<close> computes it without a wrap.

  \<open>holds w v xs\<close>: in the world \<open>w\<close> the vector \<open>v\<close> is the sequence \<open>xs\<close>. Its size is
  the length of \<open>xs\<close>, its buffer is null exactly when its capacity is 0 and was handed
  out by \<open>operator new\<close> otherwise, the slots below the size hold the elements of \<open>xs\<close>
  in order and the slots from the size up to the capacity are raw storage. The buffer
  has the \<open>capacity_\<close> slots it was asked for: their byte count is a \<open>size_t\<close> value.
\<close>

definition fits :: "'a world \<Rightarrow> nat \<Rightarrow> bool" where
  "fits w n \<longleftrightarrow> 0 < sizeof_T w \<and> n * sizeof_T w \<le> SIZE_MAX"

definition holds :: "'a world \<Rightarrow> Vector \<Rightarrow> 'a list \<Rightarrow> bool" where
  "holds w v xs \<longleftrightarrow>
     m_size v = length xs \<and> length xs \<le> m_capacity (m_data v) \<and>
     (m_buffer (m_data v) = 0) = (m_capacity (m_data v) = 0) \<and>
     m_buffer (m_data v) < next_addr w \<and>
     blocks w (m_buffer (m_data v))
       = map Obj xs @ replicate (m_capacity (m_data v) - length xs) Raw \<and>
     fits w (m_capacity (m_data v))"

text \<open>
  What reading through \<open>operator[]\<close> gives: the element at an index that passes the
  assertions and addresses a live object, and the elements at all indices below \<open>Size()\<close>.
\<close>

definition element :: "'a world \<Rightarrow> Vector \<Rightarrow> nat \<Rightarrow> 'a option" where
  "element w v index =
     (case Vector_index v index of
        None \<Rightarrow> None
      | Some p \<Rightarrow> (case slot_at w p of Some (Obj x) \<Rightarrow> Some x | _ \<Rightarrow> None))"

definition contents :: "'a world \<Rightarrow> Vector \<Rightarrow> 'a option list" where
  "contents w v = map (element w v) [0..<Size v]"

text \<open>
  What \<open>CopyOrMoveToNewBuffer\<close> leaves in the source slots: the moved-from values when it
  moves, the values themselves when it copies.
\<close>

definition left_behind :: "'a traits \<Rightarrow> 'a list \<Rightarrow> 'a list" where
  "left_behind tr xs =
     (if (if nothrow_move_constructible tr then True else \<not> copy_constructible tr)
      then map (moved_from tr) xs else xs)"

text \<open>Two vectors own different buffers, unless the first owns none.\<close>

definition separate :: "Vector \<Rightarrow> Vector \<Rightarrow> bool" where
  "separate a b \<longleftrightarrow>
     m_buffer (m_data a) \<noteq> m_buffer (m_data b) \<or> m_capacity (m_data a) = 0"

text \<open>
  The same world with no exception scheduled, and the relation between a call and the
  same call in that world: when the first returns, the second returns the same.
\<close>

definition quiet :: "'a world \<Rightarrow> 'a world" where
  "quiet w = w\<lparr>fail_in := None\<rparr>"

definition follows :: "('s \<Rightarrow> 's) \<Rightarrow> ('r, 's) res \<Rightarrow> ('r, 's) res \<Rightarrow> bool" where
  "follows q m m' \<longleftrightarrow> (case m of Done r s \<Rightarrow> m' = Done r (q s) | Thrown s \<Rightarrow> True | Undefined \<Rightarrow> True)"

text \<open>
  The state a call leaves, whether it returns or throws, and two worlds that differ at
  most in the block at one address (and in the schedule and the counters).
\<close>

definition final_state :: "('r, 's) res \<Rightarrow> 's option" where
  "final_state m = (case m of Done r s \<Rightarrow> Some s | Thrown s \<Rightarrow> Some s | Undefined \<Rightarrow> None)"

definition same_but :: "nat \<Rightarrow> 'a world \<Rightarrow> 'a world \<Rightarrow> bool" where
  "same_but t w w' \<longleftrightarrow>
     next_addr w' = next_addr w \<and> sizeof_T w' = sizeof_T w \<and>
     blocks w' = (blocks w)(t := blocks w' t)"

text \<open>
  Sequences of \<open>PushBack\<close> and \<open>PopBack\<close> calls, and what the claim about them says in
  the words of the specification: the pushed values that are not yet popped, in push
  order (\<open>None\<close> when a pop meets an empty sequence), and the two counts.
\<close>

datatype 'a call = Push 'a | Pop

fun run_calls :: "'a traits \<Rightarrow> 'a call list \<Rightarrow> Vector \<times> 'a world \<Rightarrow> (unit, Vector \<times> 'a world) res" where
  "run_calls tr [] s = Done () s"
| "run_calls tr (Push x # cs) s = then_do (PushBack tr x s) (run_calls tr cs)"
| "run_calls tr (Pop # cs) s = then_do (PopBack s) (run_calls tr cs)"

fun kept :: "'a call list \<Rightarrow> 'a list \<Rightarrow> 'a list option" where
  "kept [] xs = Some xs"
| "kept (Push x # cs) xs = kept cs (xs @ [x])"
| "kept (Pop # cs) xs = (if xs = [] then None else kept cs (butlast xs))"

fun pushes :: "'a call list \<Rightarrow> nat" where
  "pushes [] = 0"
| "pushes (Push x # cs) = Suc (pushes cs)"
| "pushes (Pop # cs) = pushes cs"

fun pops :: "'a call list \<Rightarrow> nat" where
  "pops [] = 0"
| "pops (Push x # cs) = pops cs"
| "pops (Pop # cs) = Suc (pops cs)"

text \<open>The invariant of the data model: \<open>size_ \<le> capacity_\<close> and the slots below \<open>size_\<close> are live.\<close>

fun live :: "'a slot \<Rightarrow> bool" where
  "live Raw = False"
| "live (Obj x) = True"

definition vector_inv :: "'a world \<Rightarrow> Vector \<Rightarrow> bool" where
  "vector_inv w v \<longleftrightarrow>
     m_size v \<le> m_capacity (m_data v) \<and>
     m_size v \<le> length (blocks w (m_buffer (m_data v))) \<and>
     list_all live (take (m_size v) (blocks w (m_buffer (m_data v))))"

text \<open>The number of objects of \<open>T\<close> that were constructed and not yet destroyed.\<close>

definition alive :: "'a world \<Rightarrow> nat" where
  "alive w = constructed w - destroyed w"

text \<open>
  A world with no storage and no object of a type \<open>T\<close> of four bytes, and an element type
  whose copy constructor may throw and whose move constructor is not \<open>noexcept\<close>, so that
  a reallocation copies.
\<close>

definition empty_world :: "'a world" where
  "empty_world = \<lparr>blocks = (\<lambda>_. []), next_addr = 1, fail_in = None, constructed = 0, destroyed = 0,
     sizeof_T = 4\<rparr>"

definition copying_T :: "nat traits" where
  "copying_T = \<lparr>nothrow_move_constructible = False, copy_constructible = True,
     nothrow_move_assignable = True, moved_from = (\<lambda>x. x), value_init = 0\<rparr>"

text \<open>
  The vector \<open>[10, 20]\<close> with capacity 2 as two calls of \<open>PushBack\<close> on an empty vector
  leave it, and a second vector \<open>[30]\<close> made by a \<open>PushBack\<close> after them.
\<close>

definition vec_a :: Vector where
  "vec_a = \<lparr>m_data = \<lparr>m_buffer = 2, m_capacity = 2\<rparr>, m_size = 2\<rparr>"

definition world_a :: "nat world" where
  "world_a = \<lparr>blocks = (\<lambda>_. [])(2 := [Obj 10, Obj 20]), next_addr = 3, fail_in = None,
     constructed = 3, destroyed = 1, sizeof_T = 4\<rparr>"

definition vec_b :: Vector where
  "vec_b = \<lparr>m_data = \<lparr>m_buffer = 3, m_capacity = 1\<rparr>, m_size = 1\<rparr>"

definition world_ab :: "nat world" where
  "world_ab = \<lparr>blocks = (\<lambda>_. [])(2 := [Obj 10, Obj 20], 3 := [Obj 30]), next_addr = 4,
     fail_in = None, constructed = 4, destroyed = 1, sizeof_T = 4\<rparr>"

section \<open>Requests for storage that do not wrap\<close>

lemma fits_simps [simp]:
  "fits (w\<lparr>blocks := b\<rparr>) n = fits w n"
  "fits (w\<lparr>next_addr := a\<rparr>) n = fits w n"
  "fits (w\<lparr>fail_in := f\<rparr>) n = fits w n"
  "fits (w\<lparr>constructed := c\<rparr>) n = fits w n"
  "fits (w\<lparr>destroyed := d\<rparr>) n = fits w n"
  "fits (quiet w) n = fits w n"
  "fits (set_slot p s w) n = fits w n"
  "fits (destroy_local w) n = fits w n"
  "fits (Deallocate a w) n = fits w n"
  by (simp_all add: fits_def quiet_def set_slot_def destroy_local_def Deallocate_def)

lemma fits_mono: "fits w n \<Longrightarrow> k \<le> n \<Longrightarrow> fits w k"
  unfolding fits_def by (meson le_trans mult_le_mono1)

lemma fits_same: "sizeof_T w' = sizeof_T w \<Longrightarrow> fits w' n = fits w n"
  by (simp add: fits_def)

lemma size_t_mul_fits: "fits w n \<Longrightarrow> size_t_mul n (sizeof_T w) div sizeof_T w = n"
  by (simp add: fits_def size_t_mul_def)

lemma Allocate_fits:
  "fits w n \<Longrightarrow>
     Allocate n w =
       (if n \<noteq> 0
        then (next_addr w,
              w\<lparr>blocks := (blocks w)(next_addr w := replicate n Raw),
                next_addr := Suc (next_addr w)\<rparr>)
        else (0, w))"
  by (simp add: Allocate_def operator_new_def size_t_mul_fits)

lemma RawMemory_sized_fits:
  "fits w n \<Longrightarrow>
     RawMemory_sized n w =
       (if n \<noteq> 0
        then (\<lparr>m_buffer = next_addr w, m_capacity = n\<rparr>,
              w\<lparr>blocks := (blocks w)(next_addr w := replicate n Raw),
                next_addr := Suc (next_addr w)\<rparr>)
        else (\<lparr>m_buffer = 0, m_capacity = n\<rparr>, w))"
  by (simp add: RawMemory_sized_def Allocate_fits)

lemma fits_few: "sizeof_T w = 4 \<Longrightarrow> n \<le> 8 \<Longrightarrow> fits w n"
  by (simp add: fits_def SIZE_MAX_def)

lemma CalcNewCapacity_max: "CalcNewCapacity v = max 1 (Size v * 2)"
  by (simp add: CalcNewCapacity_def Size_def max_def)

lemma holds_fits: "holds w v xs \<Longrightarrow> fits w (m_capacity (m_data v))"
  by (simp add: holds_def)

lemma holds_fits_size: "holds w v xs \<Longrightarrow> fits w (m_size v)"
  by (auto simp: holds_def intro: fits_mono)

section \<open>Evaluation of the concrete runs\<close>

lemmas prim_defs =
  ptr_add_def slot_at_def set_slot_def may_throw_def construct_at_def destroy_at_def assign_at_def
  copy_construct_def move_construct_def copy_assign_at_def move_assign_at_def
  construct_local_def destroy_local_def
  uninitialized_copy_n_def uninitialized_move_n_def uninitialized_value_construct_n_def
  Allocate_fits fits_few
  Deallocate_def RawMemory_default_def RawMemory_sized_def RawMemory_move_ctor_def
  RawMemory_move_assign_def RawMemory_dtor_def RawMemory_plus_def RawMemory_index_def
  RawMemory_Swap_def GetAddress_def then_do_def catch_rethrow_def with_vec_def vbegin_def
  vend_def Vector_default_def CopyOrMoveToNewBuffer_def CalcNewCapacity_def

lemmas run_defs =
  PushBack_def EmplaceBack_def Insert_def Emplace_def ReallocateMemoryAddingNewElement_def
  prim_defs empty_world_def copying_T_def vec_a_def world_a_def vec_b_def world_ab_def
  numeral_2_eq_2 numeral_3_eq_3 fun_eq_iff

lemma two_pushes:
  "then_do (PushBack copying_T 10 (Vector_default, empty_world)) (PushBack copying_T 20)
     = Done () (vec_a, world_a)"
  by (simp add: run_defs)

lemma third_push:
  "PushBack copying_T 30 (Vector_default, world_a) = Done () (vec_b, world_ab)"
  by (simp add: run_defs)

lemma Insert_trailing_copy_throws:
  "Insert copying_T (2, 1) 30 (vec_a, world_a\<lparr>fail_in := Some 2\<rparr>)
     = Thrown (vec_a, world_a\<lparr>blocks := (\<lambda>_. [])(2 := [Raw, Obj 20]), next_addr := 4,
                constructed := 5, destroyed := 4\<rparr>)"
  by (simp add: run_defs)

lemma Insert_at_end_grows:
  "Insert copying_T (2, 2) 30 (vec_a, world_a)
     = Done (3, 2) (\<lparr>m_data = \<lparr>m_buffer = 3, m_capacity = 4\<rparr>, m_size = 3\<rparr>,
         world_a\<lparr>blocks := (\<lambda>_. [])(3 := [Obj 10, Obj 20, Obj 30, Raw]), next_addr := 4,
           constructed := 6, destroyed := 3\<rparr>)"
  by (simp add: run_defs)

lemma holds_vec_a: "holds world_a vec_a [10, 20]"
  by (simp add: holds_def vec_a_def world_a_def fits_few)

lemma holds_vec_a_ab: "holds world_ab vec_a [10, 20]"
  by (simp add: holds_def vec_a_def world_ab_def fits_few)

lemma holds_vec_b_ab: "holds world_ab vec_b [30]"
  by (simp add: holds_def vec_b_def world_ab_def fits_few)

lemma holds_default: "holds empty_world Vector_default []"
  by (simp add: holds_def Vector_default_def RawMemory_default_def empty_world_def fits_few)


lemma run_three_calls:
  "run_calls copying_T (take 3 [Push 10, Push 20, Pop, Push 30]) (Vector_default, empty_world)
     = Done () (\<lparr>m_data = \<lparr>m_buffer = 2, m_capacity = 2\<rparr>, m_size = 1\<rparr>,
         \<lparr>blocks = (\<lambda>_. [])(2 := [Obj 10, Raw]), next_addr = 3, fail_in = None,
           constructed = 3, destroyed = 2, sizeof_T = 4\<rparr>)"
  by (simp add: PopBack_def run_defs eval_nat_numeral)

lemma Insert_middle:
  "Insert copying_T (ptr_add (vbegin vec_a) 1) 30 (vec_a, world_a)
     = Done (3, 1) (\<lparr>m_data = \<lparr>m_buffer = 3, m_capacity = 4\<rparr>, m_size = 3\<rparr>,
         world_a\<lparr>blocks := (\<lambda>_. [])(3 := [Obj 10, Obj 30, Obj 20, Raw]), next_addr := 4,
           constructed := 6, destroyed := 3\<rparr>)"
  by (simp add: run_defs eval_nat_numeral)

lemma Erase_middle:
  "Erase copying_T (ptr_add (vbegin \<lparr>m_data = \<lparr>m_buffer = 3, m_capacity = 4\<rparr>, m_size = 3\<rparr>) 1)
       (\<lparr>m_data = \<lparr>m_buffer = 3, m_capacity = 4\<rparr>, m_size = 3\<rparr>,
         world_a\<lparr>blocks := (\<lambda>_. [])(3 := [Obj 10, Obj 30, Obj 20, Raw]), next_addr := 4,
           constructed := 6, destroyed := 3\<rparr>)
     = Done (3, 1) (\<lparr>m_data = \<lparr>m_buffer = 3, m_capacity = 4\<rparr>, m_size = 2\<rparr>,
         world_a\<lparr>blocks := (\<lambda>_. [])(3 := [Obj 10, Obj 20, Raw, Raw]), next_addr := 4,
           constructed := 6, destroyed := 4\<rparr>)"
  by (simp add: Erase_def run_defs eval_nat_numeral)

lemma Erase_first:
  "Erase copying_T (ptr_add (vbegin vec_a) 0) (vec_a, world_a)
     = Done (2, 0) (vec_a\<lparr>m_size := 1\<rparr>,
         world_a\<lparr>blocks := (\<lambda>_. [])(2 := [Obj 20, Raw]), destroyed := 2\<rparr>)"
  by (simp add: Erase_def run_defs eval_nat_numeral)

lemma Erase_last:
  "Erase copying_T (ptr_add (vbegin vec_a) 1) (vec_a, world_a)
     = Done (2, 1) (vec_a\<lparr>m_size := 1\<rparr>,
         world_a\<lparr>blocks := (\<lambda>_. [])(2 := [Obj 10, Raw]), destroyed := 2\<rparr>)"
  by (simp add: Erase_def run_defs eval_nat_numeral)








lemma assign_b_to_a:
  "Vector_copy_assign 1 2 vec_b (vec_a, world_ab)
     = Done () (vec_a\<lparr>m_size := 1\<rparr>,
         world_ab\<lparr>blocks := (\<lambda>_. [])(2 := [Obj 30, Raw], 3 := [Obj 30]), destroyed := 2\<rparr>)"
  by (simp add: Vector_copy_assign_def run_defs eval_nat_numeral)

lemma assign_a_to_b:
  "Vector_copy_assign 2 1 vec_a (vec_b, world_ab)
     = Done () (\<lparr>m_data = \<lparr>m_buffer = 4, m_capacity = 2\<rparr>, m_size = 2\<rparr>,
         world_ab\<lparr>blocks := (\<lambda>_. [])(2 := [Obj 10, Obj 20], 4 := [Obj 10, Obj 20]),
           next_addr := 5, constructed := 6, destroyed := 2\<rparr>)"
  by (simp add: Vector_copy_assign_def Vector_copy_ctor_def Vector_dtor_def Swap_def run_defs
      eval_nat_numeral)

lemma assign_a_to_b_throws:
  "Vector_copy_assign 2 1 vec_a (vec_b, world_ab\<lparr>fail_in := Some 1\<rparr>)
     = Thrown (vec_b, world_ab\<lparr>next_addr := 5, constructed := 5, destroyed := 2\<rparr>)"
  by (simp add: Vector_copy_assign_def Vector_copy_ctor_def Vector_dtor_def Swap_def run_defs
      eval_nat_numeral)

section \<open>A call that returns also returns when nothing is scheduled to throw\<close>

lemma follows_case:
  assumes "follows q m m'" and "\<And>r s. follows q2 (f r s) (f' r (q s))"
    and "\<And>s r s'. g s \<noteq> Done r s'" and "\<And>r s'. u \<noteq> Done r s'"
  shows "follows q2 (case m of Done r s \<Rightarrow> f r s | Thrown s \<Rightarrow> g s | Undefined \<Rightarrow> u)
     (case m' of Done r s \<Rightarrow> f' r s | Thrown s \<Rightarrow> g' s | Undefined \<Rightarrow> u')"
proof (cases m)
  case (Done r s)
  with assms(1) have "m' = Done r (q s)" by (simp add: follows_def)
  with Done assms(2) [of r s] show ?thesis by simp
next
  case (Thrown s)
  with assms(3) [of s] show ?thesis by (cases "g s") (auto simp add: follows_def)
next
  case Undefined
  with assms(4) show ?thesis by (cases u) (auto simp add: follows_def)
qed

lemma follows_Done [simp]: "follows q (Done r s) m' \<longleftrightarrow> m' = Done r (q s)"
  by (simp add: follows_def)
lemma follows_Thrown [simp]: "follows q (Thrown s) m'"
  by (simp add: follows_def)
lemma follows_Undefined [simp]: "follows q Undefined m'"
  by (simp add: follows_def)

lemma follows_if:
  "(c \<Longrightarrow> follows q a a') \<Longrightarrow> (\<not> c \<Longrightarrow> follows q b b') \<Longrightarrow>
   follows q (if c then a else b) (if c then a' else b')"
  by simp

lemma quiet_simps [simp]:
  "blocks (quiet w) = blocks w" "next_addr (quiet w) = next_addr w"
  "constructed (quiet w) = constructed w" "destroyed (quiet w) = destroyed w"
  "fail_in (quiet w) = None"
  "slot_at (quiet w) p = slot_at w p"
  "set_slot p s (quiet w) = quiet (set_slot p s w)"
  "quiet (w\<lparr>fail_in := x\<rparr>) = quiet w"
  "quiet w\<lparr>constructed := c\<rparr> = quiet (w\<lparr>constructed := c\<rparr>)"
  "quiet w\<lparr>destroyed := d\<rparr> = quiet (w\<lparr>destroyed := d\<rparr>)"
  "destroy_local (quiet w) = quiet (destroy_local w)"
  "Deallocate b (quiet w) = quiet (Deallocate b w)"
  "RawMemory_dtor m (quiet w) = quiet (RawMemory_dtor m w)"
  by (simp_all add: quiet_def slot_at_def set_slot_def destroy_local_def Deallocate_def RawMemory_dtor_def)

lemma Allocate_quiet [simp]:
  "Allocate n (quiet w) = (fst (Allocate n w), quiet (snd (Allocate n w)))"
  by (simp add: Allocate_def operator_new_def quiet_def)

lemma RawMemory_sized_quiet [simp]:
  "RawMemory_sized n (quiet w) = (fst (RawMemory_sized n w), quiet (snd (RawMemory_sized n w)))"
  by (simp add: RawMemory_sized_def split: prod.splits)

lemma may_throw_follows: "follows quiet (may_throw fl w) (may_throw fl (quiet w))"
  by (simp add: may_throw_def quiet_def split: option.splits nat.splits)

lemma construct_at_follows: "follows quiet (construct_at fl p x w) (construct_at fl p x (quiet w))"
  unfolding construct_at_def
  by (auto split: option.splits slot.splits intro!: follows_case may_throw_follows)

lemma destroy_at_follows: "follows quiet (destroy_at p w) (destroy_at p (quiet w))"
  unfolding destroy_at_def
  by (auto split: option.splits slot.splits)

lemma assign_at_follows: "follows quiet (assign_at fl p x w) (assign_at fl p x (quiet w))"
  unfolding assign_at_def
  by (auto split: option.splits slot.splits intro!: follows_case may_throw_follows)

lemma copy_construct_follows: "follows quiet (copy_construct p q w) (copy_construct p q (quiet w))"
  unfolding copy_construct_def
  by (auto split: option.splits slot.splits intro!: construct_at_follows)

lemma move_construct_follows: "follows quiet (move_construct tr p q w) (move_construct tr p q (quiet w))"
  unfolding move_construct_def
  by (auto split: option.splits slot.splits intro!: follows_case construct_at_follows)

lemma destroy_n_follows: "follows quiet (destroy_n p n w) (destroy_n p n (quiet w))"
  by (induction n arbitrary: p w) (auto simp: ptr_add_def intro!: follows_case destroy_at_follows)

lemma uninitialized_copy_from_follows:
  "follows quiet (uninitialized_copy_from a b k n w) (uninitialized_copy_from a b k n (quiet w))"
proof (induction n arbitrary: k w)
  case 0
  show ?case by simp
next
  case (Suc n)
  show ?case
    unfolding uninitialized_copy_from.simps
    by (rule follows_case, rule copy_construct_follows, rule Suc.IH) (simp_all split: res.splits)
qed

lemma uninitialized_move_from_follows:
  "follows quiet (uninitialized_move_from tr a b k n w) (uninitialized_move_from tr a b k n (quiet w))"
proof (induction n arbitrary: k w)
  case 0
  show ?case by simp
next
  case (Suc n)
  show ?case
    unfolding uninitialized_move_from.simps
    by (rule follows_case, rule move_construct_follows, rule Suc.IH) (simp_all split: res.splits)
qed

lemma CopyOrMoveToNewBuffer_follows:
  "follows quiet (CopyOrMoveToNewBuffer tr a b n w) (CopyOrMoveToNewBuffer tr a b n (quiet w))"
  by (simp add: CopyOrMoveToNewBuffer_def uninitialized_copy_n_def uninitialized_move_n_def
      uninitialized_copy_from_follows uninitialized_move_from_follows)

lemma then_do_follows:
  "follows q m m' \<Longrightarrow> (\<And>s. follows q2 (f s) (f' (q s))) \<Longrightarrow>
   follows q2 (then_do m f) (then_do m' f')"
  unfolding then_do_def by (rule follows_case) simp_all

lemma catch_rethrow_follows:
  "follows q m m' \<Longrightarrow> follows q (catch_rethrow m h) (catch_rethrow m' h')"
  by (auto simp: follows_def catch_rethrow_def split: res.splits)

lemma with_vec_follows:
  "follows q m m' \<Longrightarrow> follows (apsnd q) (with_vec v m) (with_vec v m')"
  by (auto simp: follows_def with_vec_def split: res.splits)


lemma Reallocate_follows:
  "follows (apsnd quiet) (ReallocateMemoryAddingNewElement tr i x (v, w))
     (ReallocateMemoryAddingNewElement tr i x (v, quiet w))"
  unfolding ReallocateMemoryAddingNewElement_def
  by (auto split: prod.splits option.splits simp: RawMemory_Swap_def
      intro!: follows_case then_do_follows catch_rethrow_follows CopyOrMoveToNewBuffer_follows
        destroy_n_follows construct_at_follows)

lemma copy_assign_at_follows: "follows quiet (copy_assign_at p q w) (copy_assign_at p q (quiet w))"
  unfolding copy_assign_at_def
  by (auto split: option.splits slot.splits intro!: assign_at_follows)

lemma move_assign_at_follows: "follows quiet (move_assign_at tr p q w) (move_assign_at tr p q (quiet w))"
  unfolding move_assign_at_def
  by (auto split: option.splits slot.splits intro!: follows_case assign_at_follows)

lemma construct_local_follows: "follows quiet (construct_local w) (construct_local (quiet w))"
  unfolding construct_local_def
  by (auto intro!: follows_case may_throw_follows)


lemma copy_n_follows: "follows quiet (copy_n a n b w) (copy_n a n b (quiet w))"
proof (induction n arbitrary: a b w)
  case 0
  show ?case by simp
next
  case (Suc n)
  show ?case
    unfolding copy_n.simps
    by (rule follows_case, rule copy_assign_at_follows, rule Suc.IH) simp_all
qed

lemma std_move_follows: "follows quiet (std_move tr a n b w) (std_move tr a n b (quiet w))"
proof (induction n arbitrary: a b w)
  case 0
  show ?case by simp
next
  case (Suc n)
  show ?case
    unfolding std_move.simps
    by (rule follows_case, rule move_assign_at_follows, rule Suc.IH) simp_all
qed

lemma move_backward_follows:
  "follows quiet (move_backward tr a n b w) (move_backward tr a n b (quiet w))"
proof (induction n arbitrary: b w)
  case 0
  show ?case by simp
next
  case (Suc n)
  show ?case
    unfolding move_backward.simps
    by (rule follows_if, simp, rule follows_case, rule move_assign_at_follows, rule Suc.IH)
      simp_all
qed

lemma EmplaceBack_follows:
  "follows (apsnd quiet) (EmplaceBack tr x (v, w)) (EmplaceBack tr x (v, quiet w))"
  unfolding EmplaceBack_def
  by (auto split: option.splits intro!: follows_case Reallocate_follows construct_at_follows)

lemma PushBack_follows:
  "follows (apsnd quiet) (PushBack tr x (v, w)) (PushBack tr x (v, quiet w))"
  unfolding PushBack_def
  by (rule follows_case, rule EmplaceBack_follows) simp_all

lemma PopBack_follows:
  "follows (apsnd quiet) (PopBack (v, w)) (PopBack (v, quiet w))"
  unfolding PopBack_def
  by (auto split: option.splits intro!: follows_case destroy_at_follows)

lemma Emplace_follows:
  "follows (apsnd quiet) (Emplace tr pos x (v, w)) (Emplace tr pos x (v, quiet w))"
  unfolding Emplace_def
  by (auto simp: Let_def split: option.splits
      intro!: follows_case [where q = quiet] then_do_follows [where q = quiet]
        EmplaceBack_follows Reallocate_follows
        construct_local_follows move_construct_follows move_backward_follows assign_at_follows)

lemma Insert_follows:
  "follows (apsnd quiet) (Insert tr pos x (v, w)) (Insert tr pos x (v, quiet w))"
  unfolding Insert_def by (rule Emplace_follows)

lemma Erase_follows:
  "follows (apsnd quiet) (Erase tr pos (v, w)) (Erase tr pos (v, quiet w))"
  unfolding Erase_def
  by (auto simp: Let_def split: option.splits
      intro!: follows_case then_do_follows std_move_follows destroy_at_follows)


lemma Vector_dtor_follows: "follows quiet (Vector_dtor v w) (Vector_dtor v (quiet w))"
  unfolding Vector_dtor_def
  by (auto intro!: then_do_follows destroy_n_follows)

lemma Vector_copy_ctor_follows: "follows quiet (Vector_copy_ctor v w) (Vector_copy_ctor v (quiet w))"
  unfolding Vector_copy_ctor_def
  by (auto split: prod.splits simp: uninitialized_copy_n_def
      intro!: follows_case uninitialized_copy_from_follows)

lemma Vector_copy_assign_follows:
  "follows (apsnd quiet) (Vector_copy_assign pa pb b (a, w)) (Vector_copy_assign pa pb b (a, quiet w))"
  unfolding Vector_copy_assign_def
  by (auto split: option.splits prod.splits simp: uninitialized_copy_n_def
      intro!: follows_case then_do_follows with_vec_follows Vector_copy_ctor_follows
        Vector_dtor_follows copy_n_follows destroy_n_follows uninitialized_copy_from_follows)

lemma Done_quiet:
  "follows (apsnd quiet) m m' \<Longrightarrow> m = Done r (v', w') \<Longrightarrow> m' = Done r (v', quiet w')"
  by (simp add: follows_def)

section \<open>Storage as segments: the calls that do not throw\<close>

lemma slot_at_seg [simp]:
  "blocks w b = pre @ s # post \<Longrightarrow> slot_at w (b, length pre) = Some s"
  by (simp add: slot_at_def)

lemma set_slot_seg:
  "blocks w b = pre @ s # post \<Longrightarrow>
   set_slot (b, length pre) s' w = w\<lparr>blocks := (blocks w)(b := pre @ s' # post)\<rparr>"
  by (simp add: set_slot_def)

lemma may_throw_None [simp]: "fail_in w = None \<Longrightarrow> may_throw fl w = Done () w"
  by (simp add: may_throw_def)

lemma construct_at_seg:
  "fail_in w = None \<Longrightarrow> blocks w b = pre @ Raw # post \<Longrightarrow> i = length pre \<Longrightarrow>
   construct_at fl (b, i) x w
     = Done () (w\<lparr>blocks := (blocks w)(b := pre @ Obj x # post), constructed := Suc (constructed w)\<rparr>)"
  by (simp add: construct_at_def set_slot_seg)

lemma destroy_at_seg:
  "blocks w b = pre @ Obj x # post \<Longrightarrow> i = length pre \<Longrightarrow>
   destroy_at (b, i) w
     = Done () (w\<lparr>blocks := (blocks w)(b := pre @ Raw # post), destroyed := Suc (destroyed w)\<rparr>)"
  by (simp add: destroy_at_def set_slot_seg)

lemma assign_at_seg:
  "fail_in w = None \<Longrightarrow> blocks w b = pre @ Obj old # post \<Longrightarrow> i = length pre \<Longrightarrow>
   assign_at fl (b, i) x w = Done () (w\<lparr>blocks := (blocks w)(b := pre @ Obj x # post)\<rparr>)"
  by (simp add: assign_at_def set_slot_seg)

lemma blocks_upd_same:
  "blocks w b = ss \<Longrightarrow> w\<lparr>blocks := (blocks w)(b := ss)\<rparr> = w"
  by auto

lemma destroy_n_seg':
  "blocks w b = pre @ map Obj xs @ post \<Longrightarrow>
   destroy_n (b, length pre) (length xs) w
     = Done () (w\<lparr>blocks := (blocks w)(b := pre @ replicate (length xs) Raw @ post),
                 destroyed := destroyed w + length xs\<rparr>)"
proof (induction xs arbitrary: w pre)
  case Nil
  then show ?case by (simp add: fun_upd_idem)
next
  case (Cons x xs)
  have d: "destroy_at (b, length pre) w
     = Done () (w\<lparr>blocks := (blocks w)(b := pre @ Raw # map Obj xs @ post), destroyed := Suc (destroyed w)\<rparr>)"
    using Cons.prems by (simp add: destroy_at_seg)
  show ?case
    using Cons.IH [of "w\<lparr>blocks := (blocks w)(b := pre @ Raw # map Obj xs @ post), destroyed := Suc (destroyed w)\<rparr>" "pre @ [Raw]"]
    by (simp add: d ptr_add_def replicate_app_Cons_same fun_eq_iff)
qed

lemma destroy_n_seg:
  "blocks w b = pre @ map Obj xs @ post \<Longrightarrow> i = length pre \<Longrightarrow> n = length xs \<Longrightarrow>
   destroy_n (b, i) n w
     = Done () (w\<lparr>blocks := (blocks w)(b := pre @ replicate n Raw @ post),
                 destroyed := destroyed w + n\<rparr>)"
  by (simp add: destroy_n_seg')

lemma copy_construct_seg:
  "fail_in w = None \<Longrightarrow> blocks w fb = fpre @ Obj x # fpost \<Longrightarrow> fi = length fpre \<Longrightarrow>
   blocks w tb = tpre @ Raw # tpost \<Longrightarrow> ti = length tpre \<Longrightarrow>
   copy_construct (tb, ti) (fb, fi) w
     = Done () (w\<lparr>blocks := (blocks w)(tb := tpre @ Obj x # tpost),
                 constructed := Suc (constructed w)\<rparr>)"
  by (simp add: copy_construct_def construct_at_seg)

lemma move_construct_seg:
  "fail_in w = None \<Longrightarrow> fb \<noteq> tb \<Longrightarrow> blocks w fb = fpre @ Obj x # fpost \<Longrightarrow> fi = length fpre \<Longrightarrow>
   blocks w tb = tpre @ Raw # tpost \<Longrightarrow> ti = length tpre \<Longrightarrow>
   move_construct tr (tb, ti) (fb, fi) w
     = Done () (w\<lparr>blocks := (blocks w)(tb := tpre @ Obj x # tpost,
                                        fb := fpre @ Obj (moved_from tr x) # fpost),
                 constructed := Suc (constructed w)\<rparr>)"
  by (simp add: move_construct_def construct_at_seg set_slot_def)

lemma uninitialized_copy_from_seg:
  "fail_in w = None \<Longrightarrow> fb \<noteq> tb \<Longrightarrow>
   blocks w fb = fpre @ map Obj xs @ fpost \<Longrightarrow> length fpre = fi + k \<Longrightarrow>
   blocks w tb = tpre @ replicate (length xs) Raw @ tpost \<Longrightarrow> length tpre = ti + k \<Longrightarrow>
   uninitialized_copy_from (fb, fi) (tb, ti) k (length xs) w
     = Done () (w\<lparr>blocks := (blocks w)(tb := tpre @ map Obj xs @ tpost),
                 constructed := constructed w + length xs\<rparr>)"
proof (induction xs arbitrary: w fpre tpre k)
  case Nil
  then show ?case by (simp add: fun_upd_idem)
next
  case (Cons x xs)
  let ?w1 = "w\<lparr>blocks := (blocks w)(tb := tpre @ Obj x # replicate (length xs) Raw @ tpost),
                 constructed := Suc (constructed w)\<rparr>"
  have c: "copy_construct (tb, ti + k) (fb, fi + k) w = Done () ?w1"
    using Cons.prems
    by (intro copy_construct_seg [where fpre = fpre and fpost = "map Obj xs @ fpost"]) simp_all
  have r: "uninitialized_copy_from (fb, fi) (tb, ti) (Suc k) (length xs) ?w1
     = Done () (?w1\<lparr>blocks := (blocks ?w1)(tb := (tpre @ [Obj x]) @ map Obj xs @ tpost),
                 constructed := constructed ?w1 + length xs\<rparr>)"
    using Cons.prems
    by (intro Cons.IH [where fpre = "fpre @ [Obj x]"]) simp_all
  show ?case
    by (simp add: c r ptr_add_def fun_eq_iff)
qed

lemma uninitialized_copy_n_seg:
  "fail_in w = None \<Longrightarrow> fb \<noteq> tb \<Longrightarrow>
   blocks w fb = fpre @ map Obj xs @ fpost \<Longrightarrow> fi = length fpre \<Longrightarrow>
   blocks w tb = tpre @ replicate n Raw @ tpost \<Longrightarrow> ti = length tpre \<Longrightarrow> n = length xs \<Longrightarrow>
   uninitialized_copy_n (fb, fi) n (tb, ti) w
     = Done () (w\<lparr>blocks := (blocks w)(tb := tpre @ map Obj xs @ tpost),
                 constructed := constructed w + n\<rparr>)"
  unfolding uninitialized_copy_n_def
  using uninitialized_copy_from_seg [of w fb tb fpre xs fpost fi 0 tpre tpost ti]
  by simp

lemma uninitialized_move_from_seg:
  "fail_in w = None \<Longrightarrow> fb \<noteq> tb \<Longrightarrow>
   blocks w fb = fpre @ map Obj xs @ fpost \<Longrightarrow> length fpre = fi + k \<Longrightarrow>
   blocks w tb = tpre @ replicate (length xs) Raw @ tpost \<Longrightarrow> length tpre = ti + k \<Longrightarrow>
   uninitialized_move_from tr (fb, fi) (tb, ti) k (length xs) w
     = Done () (w\<lparr>blocks := (blocks w)(tb := tpre @ map Obj xs @ tpost,
                                        fb := fpre @ map Obj (map (moved_from tr) xs) @ fpost),
                 constructed := constructed w + length xs\<rparr>)"
proof (induction xs arbitrary: w fpre tpre k)
  case Nil
  then show ?case by (simp add: fun_upd_idem)
next
  case (Cons x xs)
  let ?w1 = "w\<lparr>blocks := (blocks w)(tb := tpre @ Obj x # replicate (length xs) Raw @ tpost,
                                   fb := fpre @ Obj (moved_from tr x) # map Obj xs @ fpost),
                 constructed := Suc (constructed w)\<rparr>"
  have c: "move_construct tr (tb, ti + k) (fb, fi + k) w = Done () ?w1"
    using Cons.prems
    by (intro move_construct_seg) simp_all
  have r: "uninitialized_move_from tr (fb, fi) (tb, ti) (Suc k) (length xs) ?w1
     = Done () (?w1\<lparr>blocks := (blocks ?w1)(tb := (tpre @ [Obj x]) @ map Obj xs @ tpost,
                          fb := (fpre @ [Obj (moved_from tr x)]) @ map Obj (map (moved_from tr) xs) @ fpost),
                 constructed := constructed ?w1 + length xs\<rparr>)"
    using Cons.prems
    by (intro Cons.IH) simp_all
  show ?case
    by (simp add: c r ptr_add_def fun_eq_iff)
qed

lemma uninitialized_move_n_seg:
  "fail_in w = None \<Longrightarrow> fb \<noteq> tb \<Longrightarrow>
   blocks w fb = fpre @ map Obj xs @ fpost \<Longrightarrow> fi = length fpre \<Longrightarrow>
   blocks w tb = tpre @ replicate n Raw @ tpost \<Longrightarrow> ti = length tpre \<Longrightarrow> n = length xs \<Longrightarrow>
   uninitialized_move_n tr (fb, fi) n (tb, ti) w
     = Done () (w\<lparr>blocks := (blocks w)(tb := tpre @ map Obj xs @ tpost,
                                        fb := fpre @ map Obj (map (moved_from tr) xs) @ fpost),
                 constructed := constructed w + n\<rparr>)"
  unfolding uninitialized_move_n_def
  using uninitialized_move_from_seg [of w fb tb fpre xs fpost fi 0 tpre tpost ti tr]
  by simp



lemma copy_assign_at_seg:
  "fail_in w = None \<Longrightarrow> blocks w fb = fpre @ Obj x # fpost \<Longrightarrow> fi = length fpre \<Longrightarrow>
   blocks w tb = tpre @ Obj old # tpost \<Longrightarrow> ti = length tpre \<Longrightarrow>
   copy_assign_at (tb, ti) (fb, fi) w
     = Done () (w\<lparr>blocks := (blocks w)(tb := tpre @ Obj x # tpost)\<rparr>)"
  by (simp add: copy_assign_at_def assign_at_seg)

lemma copy_n_seg':
  "length ys = length xs \<Longrightarrow> fail_in w = None \<Longrightarrow> fb \<noteq> tb \<Longrightarrow>
   blocks w fb = fpre @ map Obj xs @ fpost \<Longrightarrow>
   blocks w tb = tpre @ map Obj ys @ tpost \<Longrightarrow>
   copy_n (fb, length fpre) (length xs) (tb, length tpre) w
     = Done () (w\<lparr>blocks := (blocks w)(tb := tpre @ map Obj xs @ tpost)\<rparr>)"
proof (induction ys xs arbitrary: w fpre tpre rule: list_induct2)
  case Nil
  then show ?case by (simp add: fun_upd_idem)
next
  case (Cons y ys x xs)
  let ?w1 = "w\<lparr>blocks := (blocks w)(tb := tpre @ Obj x # map Obj ys @ tpost)\<rparr>"
  have c: "copy_assign_at (tb, length tpre) (fb, length fpre) w = Done () ?w1"
    using Cons.prems by (intro copy_assign_at_seg) simp_all
  have r: "copy_n (fb, length (fpre @ [Obj x])) (length xs) (tb, length (tpre @ [Obj x])) ?w1
     = Done () (?w1\<lparr>blocks := (blocks ?w1)(tb := (tpre @ [Obj x]) @ map Obj xs @ tpost)\<rparr>)"
    using Cons.prems by (intro Cons.IH) simp_all
  show ?case
    using r by (simp add: c ptr_add_def fun_eq_iff)
qed

lemma copy_n_seg:
  "fail_in w = None \<Longrightarrow> fb \<noteq> tb \<Longrightarrow>
   blocks w fb = fpre @ map Obj xs @ fpost \<Longrightarrow> fi = length fpre \<Longrightarrow>
   blocks w tb = tpre @ map Obj ys @ tpost \<Longrightarrow> ti = length tpre \<Longrightarrow>
   n = length xs \<Longrightarrow> length ys = length xs \<Longrightarrow>
   copy_n (fb, fi) n (tb, ti) w
     = Done () (w\<lparr>blocks := (blocks w)(tb := tpre @ map Obj xs @ tpost)\<rparr>)"
  by (simp add: copy_n_seg')

lemma move_assign_at_seg:
  "fail_in w = None \<Longrightarrow> blocks w b = pre @ Obj old # Obj x # post \<Longrightarrow> i = length pre \<Longrightarrow>
   j = Suc (length pre) \<Longrightarrow>
   move_assign_at tr (b, i) (b, j) w
     = Done () (w\<lparr>blocks := (blocks w)(b := pre @ Obj x # Obj (moved_from tr x) # post)\<rparr>)"
  by (simp add: move_assign_at_def assign_at_def slot_at_def set_slot_def nth_append
      list_update_append)

lemma std_move_seg':
  "fail_in w = None \<Longrightarrow> blocks w b = pre @ Obj e # map Obj ys @ post \<Longrightarrow>
   std_move tr (b, Suc (length pre)) (length ys) (b, length pre) w
     = Done () (w\<lparr>blocks := (blocks w)
         (b := pre @ map Obj ys @ Obj (if ys = [] then e else moved_from tr (last ys)) # post)\<rparr>)"
proof (induction ys arbitrary: w pre e)
  case Nil
  then show ?case by (simp add: fun_upd_idem)
next
  case (Cons y ys)
  let ?w1 = "w\<lparr>blocks := (blocks w)(b := pre @ Obj y # Obj (moved_from tr y) # map Obj ys @ post)\<rparr>"
  have c: "move_assign_at tr (b, length pre) (b, Suc (length pre)) w = Done () ?w1"
    using Cons.prems by (intro move_assign_at_seg) simp_all
  have r: "std_move tr (b, Suc (length (pre @ [Obj y]))) (length ys) (b, length (pre @ [Obj y])) ?w1
     = Done () (?w1\<lparr>blocks := (blocks ?w1)
         (b := (pre @ [Obj y]) @ map Obj ys
               @ Obj (if ys = [] then moved_from tr y else moved_from tr (last ys)) # post)\<rparr>)"
    using Cons.prems by (intro Cons.IH) simp_all
  show ?case
    using r by (simp add: c ptr_add_def fun_eq_iff)
qed

lemma move_assign_at_seg_up:
  "fail_in w = None \<Longrightarrow> blocks w b = pre @ Obj x # Obj old # post \<Longrightarrow> i = length pre \<Longrightarrow>
   j = Suc (length pre) \<Longrightarrow>
   move_assign_at tr (b, j) (b, i) w
     = Done () (w\<lparr>blocks := (blocks w)(b := pre @ Obj (moved_from tr x) # Obj x # post)\<rparr>)"
  by (simp add: move_assign_at_def assign_at_def slot_at_def set_slot_def nth_append
      list_update_append)

lemma move_backward_seg':
  "fail_in w = None \<Longrightarrow> blocks w b = pre @ map Obj ys @ Obj t # post \<Longrightarrow>
   move_backward tr (b, length pre) (length ys) (b, Suc (length pre + length ys)) w
     = Done () (w\<lparr>blocks := (blocks w)
         (b := pre @ Obj (if ys = [] then t else moved_from tr (hd ys)) # map Obj ys @ post)\<rparr>)"
proof (induction ys arbitrary: w t post rule: rev_induct)
  case Nil
  then show ?case by (simp add: fun_upd_idem)
next
  case (snoc y ys)
  let ?w1 = "w\<lparr>blocks := (blocks w)(b := pre @ map Obj ys @ Obj (moved_from tr y) # Obj y # post)\<rparr>"
  have c: "move_assign_at tr (b, Suc (length pre + length ys)) (b, length pre + length ys) w = Done () ?w1"
    using snoc.prems
    by (intro move_assign_at_seg_up [where pre = "pre @ map Obj ys", simplified]) simp_all
  have r: "move_backward tr (b, length pre) (length ys) (b, Suc (length pre + length ys)) ?w1
     = Done () (?w1\<lparr>blocks := (blocks ?w1)
         (b := pre @ Obj (if ys = [] then moved_from tr y else moved_from tr (hd ys)) # map Obj ys
               @ Obj y # post)\<rparr>)"
    using snoc.prems by (intro snoc.IH) simp_all
  show ?case
    using r by (simp add: c ptr_add_def fun_eq_iff)
qed

lemma length_left_behind [simp]: "length (left_behind tr xs) = length xs"
  by (simp add: left_behind_def)

lemma CopyOrMoveToNewBuffer_seg:
  "fail_in w = None \<Longrightarrow> fb \<noteq> tb \<Longrightarrow>
   blocks w fb = fpre @ map Obj xs @ fpost \<Longrightarrow> fi = length fpre \<Longrightarrow>
   blocks w tb = tpre @ replicate n Raw @ tpost \<Longrightarrow> ti = length tpre \<Longrightarrow> n = length xs \<Longrightarrow>
   CopyOrMoveToNewBuffer tr (fb, fi) (tb, ti) n w
     = Done () (w\<lparr>blocks := (blocks w)(tb := tpre @ map Obj xs @ tpost,
                                        fb := fpre @ map Obj (left_behind tr xs) @ fpost),
                 constructed := constructed w + n\<rparr>)"
  by (simp add: CopyOrMoveToNewBuffer_def left_behind_def uninitialized_move_n_seg
      uninitialized_copy_n_seg fun_eq_iff)

lemma transfer_then_destroy:
  assumes "fail_in w = None" "fb \<noteq> tb"
    "blocks w fb = fpre @ map Obj xs @ fpost" "fi = length fpre"
    "blocks w tb = tpre @ replicate n Raw @ tpost" "ti = length tpre" "n = length xs"
  shows "then_do (CopyOrMoveToNewBuffer tr (fb, fi) (tb, ti) n w) (destroy_n (fb, fi) n)
     = Done () (w\<lparr>blocks := (blocks w)(tb := tpre @ map Obj xs @ tpost,
                                        fb := fpre @ replicate n Raw @ fpost),
                 constructed := constructed w + n, destroyed := destroyed w + n\<rparr>)"
proof -
  let ?w1 = "w\<lparr>blocks := (blocks w)(tb := tpre @ map Obj xs @ tpost,
                                        fb := fpre @ map Obj (left_behind tr xs) @ fpost),
                 constructed := constructed w + n\<rparr>"
  have d: "destroy_n (fb, fi) n ?w1
     = Done () (?w1\<lparr>blocks := (blocks ?w1)(fb := fpre @ replicate n Raw @ fpost),
                  destroyed := destroyed ?w1 + n\<rparr>)"
    using assms by (intro destroy_n_seg [where xs = "left_behind tr xs"]) simp_all
  show ?thesis
    using d by (simp add: then_do_def CopyOrMoveToNewBuffer_seg [OF assms] fun_eq_iff)
qed


lemma replicate_split:
  "i < c \<Longrightarrow> replicate c a = replicate i a @ a # replicate (c - Suc i) a"
  by (metis Suc_diff_Suc add_Suc_right le_add_diff_inverse less_imp_le_nat replicate_Suc replicate_add)

lemma Reallocate_full:
  assumes h: "holds w v xs" and f: "fail_in w = None"
    and full: "m_capacity (m_data v) = length xs" and i: "i \<le> length xs"
    and fc: "fits w (CalcNewCapacity v)"
  shows "ReallocateMemoryAddingNewElement tr i x (v, w)
     = Done (next_addr w, i)
        (v\<lparr>m_data := \<lparr>m_buffer = next_addr w, m_capacity = CalcNewCapacity v\<rparr>,
           m_size := Suc (length xs)\<rparr>,
         w\<lparr>blocks := (blocks w)
             (next_addr w := map Obj (take i xs @ x # drop i xs)
                               @ replicate (CalcNewCapacity v - Suc (length xs)) Raw,
              m_buffer (m_data v) := []),
           next_addr := Suc (next_addr w),
           constructed := Suc (constructed w + length xs),
           destroyed := destroyed w + length xs\<rparr>)"
proof -
  let ?b = "m_buffer (m_data v)" and ?n = "length xs" and ?na = "next_addr w"
  let ?c = "CalcNewCapacity v"
  from h full have hs: "m_size v = ?n" "?b < ?na" "blocks w ?b = map Obj xs"
    "(?b = 0) = (?n = 0)"
    by (simp_all add: holds_def)
  have c: "?n < ?c" using hs by (simp add: CalcNewCapacity_def)
  let ?w1 = "w\<lparr>blocks := (blocks w)(?na := replicate ?c Raw), next_addr := Suc ?na\<rparr>"
  let ?w2 = "?w1\<lparr>blocks := (blocks ?w1)(?na := replicate i Raw @ Obj x # replicate (?c - Suc i) Raw),
               constructed := Suc (constructed ?w1)\<rparr>"
  have s2: "construct_at True (?na, i) x ?w1 = Done () ?w2"
    using f c i
    by (intro construct_at_seg [where pre = "replicate i Raw" and post = "replicate (?c - Suc i) Raw"])
       (simp_all add: replicate_split [symmetric])
  let ?w3 = "?w2\<lparr>blocks := (blocks ?w2)
                 (?na := [] @ map Obj (take i xs) @ Obj x # replicate (?c - Suc i) Raw,
                  ?b := [] @ replicate i Raw @ map Obj (drop i xs)),
               constructed := constructed ?w2 + i, destroyed := destroyed ?w2 + i\<rparr>"
  have s3: "then_do (CopyOrMoveToNewBuffer tr (?b, 0) (?na, 0) i ?w2) (destroy_n (?b, 0) i)
     = Done () ?w3"
    using hs f i
    by (intro transfer_then_destroy) (simp_all add: map_append [symmetric] del: map_append)
  let ?w4 = "?w3\<lparr>blocks := (blocks ?w3)
                 (?na := (map Obj (take i xs) @ [Obj x]) @ map Obj (drop i xs)
                           @ replicate (?c - Suc ?n) Raw,
                  ?b := replicate i Raw @ replicate (?n - i) Raw @ []),
               constructed := constructed ?w3 + (?n - i), destroyed := destroyed ?w3 + (?n - i)\<rparr>"
  have rep: "replicate (?c - Suc i) (Raw :: 'a slot)
     = replicate (?n - i) Raw @ replicate (?c - Suc ?n) Raw"
    using c i by (simp add: replicate_add [symmetric])
  have s4: "then_do (CopyOrMoveToNewBuffer tr (?b, i) (?na, Suc i) (?n - i) ?w3)
               (destroy_n (?b, i) (?n - i))
     = Done () ?w4"
    using hs f i rep
    by (intro transfer_then_destroy) simp_all
  have cap: "i \<le> ?c" using c i by simp
  show ?thesis
  proof (cases "i < ?n")
    case True
    with hs c i cap s2 s3 s4 show ?thesis
      by (auto simp add: ReallocateMemoryAddingNewElement_def RawMemory_sized_fits [OF fc]
          GetAddress_def vbegin_def RawMemory_plus_def RawMemory_Swap_def RawMemory_dtor_def
          Deallocate_def then_do_def catch_rethrow_def ptr_add_def fun_eq_iff
          replicate_add [symmetric])
  next
    case False
    with i have e: "i = ?n" by simp
    with hs c cap s2 s3 show ?thesis
      by (auto simp add: ReallocateMemoryAddingNewElement_def RawMemory_sized_fits [OF fc]
          GetAddress_def vbegin_def RawMemory_plus_def RawMemory_Swap_def RawMemory_dtor_def
          Deallocate_def then_do_def catch_rethrow_def ptr_add_def fun_eq_iff)
  qed
qed

lemma EmplaceBack_spare:
  assumes h: "holds w v xs" and f: "fail_in w = None"
    and spare: "length xs < m_capacity (m_data v)"
  shows "EmplaceBack tr x (v, w)
     = Done (m_buffer (m_data v), length xs)
        (v\<lparr>m_size := Suc (length xs)\<rparr>,
         w\<lparr>blocks := (blocks w)
             (m_buffer (m_data v) := map Obj (xs @ [x])
                 @ replicate (m_capacity (m_data v) - Suc (length xs)) Raw),
           constructed := Suc (constructed w)\<rparr>)"
proof -
  let ?b = "m_buffer (m_data v)" and ?n = "length xs" and ?cap = "m_capacity (m_data v)"
  from h have hs: "m_size v = ?n" "blocks w ?b = map Obj xs @ replicate (?cap - ?n) Raw"
    by (simp_all add: holds_def)
  have c: "construct_at True (?b, ?n) x w
     = Done () (w\<lparr>blocks := (blocks w)(?b := map Obj xs @ Obj x # replicate (?cap - Suc ?n) Raw),
                 constructed := Suc (constructed w)\<rparr>)"
    using hs f spare
    by (intro construct_at_seg) (simp_all add: replicate_split [of 0, simplified])
  show ?thesis
    using hs spare by (simp add: EmplaceBack_def RawMemory_plus_def c)
qed

lemma PopBack_nonempty:
  assumes h: "holds w v xs" and ne: "xs \<noteq> []"
  shows "PopBack (v, w)
     = Done ()
        (v\<lparr>m_size := length xs - 1\<rparr>,
         w\<lparr>blocks := (blocks w)
             (m_buffer (m_data v) := map Obj (butlast xs)
                 @ replicate (m_capacity (m_data v) - (length xs - 1)) Raw),
           destroyed := Suc (destroyed w)\<rparr>)"
proof -
  let ?b = "m_buffer (m_data v)" and ?n = "length xs" and ?cap = "m_capacity (m_data v)"
  from h have hs: "m_size v = ?n" "?n \<le> ?cap"
    "blocks w ?b = map Obj xs @ replicate (?cap - ?n) Raw"
    by (simp_all add: holds_def)
  from ne obtain ys y where xs: "xs = ys @ [y]"
    by (metis append_butlast_last_id)
  have d: "destroy_at (?b, ?n - 1) w
     = Done () (w\<lparr>blocks := (blocks w)(?b := map Obj ys @ Raw # replicate (?cap - ?n) Raw),
                 destroyed := Suc (destroyed w)\<rparr>)"
    using hs xs by (intro destroy_at_seg) simp_all
  have r: "Raw # replicate (?cap - ?n) (Raw :: 'a slot) = replicate (?cap - (?n - 1)) Raw"
    using hs xs by (simp add: Suc_diff_le flip: replicate_Suc)
  show ?thesis
    using hs xs d r by (simp add: PopBack_def RawMemory_index_def)
qed

lemma Erase_inside:
  assumes h: "holds w v xs" and f: "fail_in w = None" and i: "i < length xs"
  shows "Erase tr (m_buffer (m_data v), i) (v, w)
     = Done (m_buffer (m_data v), i)
        (v\<lparr>m_size := length xs - 1\<rparr>,
         w\<lparr>blocks := (blocks w)
             (m_buffer (m_data v) := map Obj (take i xs @ drop (Suc i) xs)
                 @ replicate (m_capacity (m_data v) - (length xs - 1)) Raw),
           destroyed := Suc (destroyed w)\<rparr>)"
proof -
  let ?b = "m_buffer (m_data v)" and ?n = "length xs" and ?cap = "m_capacity (m_data v)"
  let ?pre = "map Obj (take i xs)" and ?ys = "drop (Suc i) xs"
  let ?post = "replicate (?cap - ?n) (Raw :: 'a slot)"
  let ?r = "if ?ys = [] then xs ! i else moved_from tr (last ?ys)"
  from h have hs: "m_size v = ?n" "?n \<le> ?cap" "blocks w ?b = map Obj xs @ ?post"
    by (simp_all add: holds_def)
  have xs: "xs = take i xs @ xs ! i # ?ys"
    using i by (simp add: id_take_nth_drop)
  have blk: "blocks w ?b = ?pre @ Obj (xs ! i) # map Obj ?ys @ ?post"
    using hs(3) by (subst (asm) xs) simp
  let ?w1 = "w\<lparr>blocks := (blocks w)(?b := ?pre @ map Obj ?ys @ Obj ?r # ?post)\<rparr>"
  have m: "std_move tr (?b, Suc i) (?n - Suc i) (?b, i) w = Done () ?w1"
    using std_move_seg' [OF f blk, of tr] i by simp
  have d: "destroy_at (?b, ?n - 1) ?w1
     = Done () (?w1\<lparr>blocks := (blocks ?w1)(?b := (?pre @ map Obj ?ys) @ Raw # ?post),
                  destroyed := Suc (destroyed ?w1)\<rparr>)"
    using i by (intro destroy_at_seg) auto
  have r: "Raw # ?post = replicate (?cap - (?n - 1)) Raw"
    using hs i by (simp add: Suc_diff_le flip: replicate_Suc)
  show ?thesis
    using hs i m d r
    by (simp add: Erase_def vbegin_def vend_def GetAddress_def RawMemory_plus_def
        RawMemory_index_def ptr_add_def then_do_def fun_eq_iff)
qed

lemma move_construct_up:
  "fail_in w = None \<Longrightarrow> blocks w b = pre @ Obj x # Raw # post \<Longrightarrow> i = length pre \<Longrightarrow>
   j = Suc (length pre) \<Longrightarrow>
   move_construct tr (b, j) (b, i) w
     = Done () (w\<lparr>blocks := (blocks w)(b := pre @ Obj (moved_from tr x) # Obj x # post),
                 constructed := Suc (constructed w)\<rparr>)"
  by (simp add: move_construct_def construct_at_def slot_at_def set_slot_def nth_append
      list_update_append)

lemma Emplace_in_place:
  assumes h: "holds w v xs" and f: "fail_in w = None"
    and i: "i < length xs" and spare: "length xs < m_capacity (m_data v)"
  shows "Emplace tr (m_buffer (m_data v), i) x (v, w)
     = Done (m_buffer (m_data v), i)
        (v\<lparr>m_size := Suc (length xs)\<rparr>,
         w\<lparr>blocks := (blocks w)
             (m_buffer (m_data v) := map Obj (take i xs @ x # drop i xs)
                 @ replicate (m_capacity (m_data v) - Suc (length xs)) Raw),
           constructed := Suc (Suc (constructed w)), destroyed := Suc (destroyed w)\<rparr>)"
proof -
  let ?b = "m_buffer (m_data v)" and ?n = "length xs" and ?cap = "m_capacity (m_data v)"
  let ?P = "map Obj (take i xs)" and ?R = "replicate (?cap - Suc ?n) (Raw :: 'a slot)"
  from h have hs: "m_size v = ?n" "blocks w ?b = map Obj xs @ replicate (?cap - ?n) Raw"
    by (simp_all add: holds_def)
  from i obtain ys l where d: "drop i xs = ys @ [l]"
    by (metis append_butlast_last_id drop_eq_Nil not_le)
  have xs: "xs = take i xs @ ys @ [l]"
    using d by (metis append_take_drop_id)
  have n: "?n = Suc (i + length ys)"
    using i by (subst xs) simp
  have rr: "replicate (?cap - ?n) (Raw :: 'a slot) = Raw # ?R"
    using spare by (simp add: Suc_diff_Suc flip: replicate_Suc)
  have blk: "blocks w ?b = (?P @ map Obj ys) @ Obj l # Raw # ?R"
    using hs(2) unfolding rr by (subst (asm) xs) simp
  let ?m = "moved_from tr"
  let ?w1 = "w\<lparr>constructed := Suc (constructed w)\<rparr>"
  let ?w2 = "?w1\<lparr>blocks := (blocks ?w1)(?b := (?P @ map Obj ys) @ Obj (?m l) # Obj l # ?R),
               constructed := Suc (constructed ?w1)\<rparr>"
  let ?w3 = "?w2\<lparr>blocks := (blocks ?w2)
               (?b := ?P @ Obj (if ys = [] then ?m l else ?m (hd ys)) # map Obj ys @ Obj l # ?R)\<rparr>"
  let ?w4 = "?w3\<lparr>blocks := (blocks ?w3)(?b := ?P @ Obj x # map Obj ys @ Obj l # ?R)\<rparr>"
  have s1: "construct_local w = Done () ?w1"
    using f by (simp add: construct_local_def)
  have s2: "move_construct tr (?b, ?n) (?b, ?n - 1) ?w1 = Done () ?w2"
    using f blk n i by (intro move_construct_up) simp_all
  have s3: "move_backward tr (?b, i) (?n - 1 - i) (?b, ?n) ?w2 = Done () ?w3"
    using move_backward_seg' [of ?w2 ?b ?P ys "?m l" "Obj l # ?R" tr] f n i by simp
  have s4: "assign_at (\<not> nothrow_move_assignable tr) (?b, i) x ?w3 = Done () ?w4"
    using f i by (intro assign_at_seg) simp_all
  have fin: "?P @ Obj x # map Obj ys @ Obj l # ?R = map Obj (take i xs @ x # drop i xs) @ ?R"
    by (simp add: d)
  have ne: "xs \<noteq> []" and ge: "\<not> length xs - Suc 0 < i"
    and lt: "length xs - Suc 0 < m_capacity (m_data v)"
    using i spare by auto
  show ?thesis
    using hs i spare s1 s2 s3 s4 fin ne ge lt
    by (simp add: Emplace_def vbegin_def vend_def GetAddress_def RawMemory_plus_def
        RawMemory_index_def ptr_add_def then_do_def destroy_local_def Let_def fun_eq_iff)
qed


lemma holds_fresh:
  "holds w v xs \<Longrightarrow> m_buffer (m_data v) \<noteq> next_addr w"
  by (simp add: holds_def)



lemma Vector_dtor_holds:
  assumes h: "holds w v xs"
  shows "Vector_dtor v w
     = Done () (w\<lparr>blocks := (blocks w)(m_buffer (m_data v) := []),
                 destroyed := destroyed w + length xs\<rparr>)"
proof -
  let ?b = "m_buffer (m_data v)" and ?n = "length xs" and ?cap = "m_capacity (m_data v)"
  from h have hs: "m_size v = ?n" "?n \<le> ?cap" "(?b = 0) = (?cap = 0)"
    "blocks w ?b = [] @ map Obj xs @ replicate (?cap - ?n) Raw"
    by (simp_all add: holds_def)
  have d: "destroy_n (?b, 0) ?n w
     = Done () (w\<lparr>blocks := (blocks w)(?b := [] @ replicate ?n Raw @ replicate (?cap - ?n) Raw),
                 destroyed := destroyed w + ?n\<rparr>)"
    by (intro destroy_n_seg [OF hs(4)]) simp_all
  show ?thesis
    using hs d
    by (auto simp add: Vector_dtor_def vbegin_def GetAddress_def then_do_def RawMemory_dtor_def
        Deallocate_def fun_eq_iff)
qed

lemma Vector_copy_ctor_holds:
  assumes h: "holds w b ys" and f: "fail_in w = None"
  shows "Vector_copy_ctor b w
     = Done \<lparr>m_data = \<lparr>m_buffer = (if ys = [] then 0 else next_addr w), m_capacity = length ys\<rparr>,
             m_size = length ys\<rparr>
        (if ys = [] then w
         else w\<lparr>blocks := (blocks w)(next_addr w := map Obj ys), next_addr := Suc (next_addr w),
                constructed := constructed w + length ys\<rparr>)"
proof (cases "ys = []")
  case True
  with h show ?thesis
    by (simp add: Vector_copy_ctor_def RawMemory_sized_def Allocate_def uninitialized_copy_n_def
        holds_def)
next
  case False
  let ?b = "m_buffer (m_data b)" and ?n = "length ys" and ?na = "next_addr w"
  let ?w1 = "w\<lparr>blocks := (blocks w)(?na := replicate ?n Raw), next_addr := Suc ?na\<rparr>"
  from h have hs: "m_size b = ?n" "?b < ?na"
    "blocks w ?b = map Obj ys @ replicate (m_capacity (m_data b) - ?n) Raw"
    by (simp_all add: holds_def)
  have u: "uninitialized_copy_n (?b, 0) ?n (?na, 0) ?w1
     = Done () (?w1\<lparr>blocks := (blocks ?w1)(?na := [] @ map Obj ys @ []),
                  constructed := constructed ?w1 + ?n\<rparr>)"
    using hs f by (intro uninitialized_copy_n_seg [where fpre = "[]"]) simp_all
  from holds_fits_size [OF h] hs have fb: "fits w (length ys)" by simp
  show ?thesis
    using False hs u
    by (simp add: Vector_copy_ctor_def RawMemory_sized_fits [OF fb] GetAddress_def fun_eq_iff)
qed

lemma Vector_copy_assign_grow:
  assumes ha: "holds w a xs" and hb: "holds w b ys" and f: "fail_in w = None"
    and ne: "pa \<noteq> pb" and big: "m_capacity (m_data a) < length ys"
  shows "Vector_copy_assign pa pb b (a, w)
     = Done () (\<lparr>m_data = \<lparr>m_buffer = next_addr w, m_capacity = length ys\<rparr>, m_size = length ys\<rparr>,
         w\<lparr>blocks := (blocks w)(next_addr w := map Obj ys, m_buffer (m_data a) := []),
           next_addr := Suc (next_addr w),
           constructed := constructed w + length ys, destroyed := destroyed w + length xs\<rparr>)"
proof -
  from big have ys: "ys \<noteq> []" by auto
  let ?w1 = "w\<lparr>blocks := (blocks w)(next_addr w := map Obj ys), next_addr := Suc (next_addr w),
                constructed := constructed w + length ys\<rparr>"
  from ha have h1: "holds ?w1 \<lparr>m_data = m_data a, m_size = m_size a\<rparr> xs"
    by (simp add: holds_def)
  from ha have hs: "m_buffer (m_data a) \<noteq> next_addr w"
    by (simp add: holds_def)
  from hb have sb: "m_size b = length ys"
    by (simp add: holds_def)
  show ?thesis
    using ys ne big sb hs
    by (simp add: Vector_copy_assign_def Vector_copy_ctor_holds [OF hb f] Swap_def
        RawMemory_Swap_def with_vec_def Vector_dtor_holds [OF h1] fun_eq_iff)
qed

lemma Vector_copy_assign_in_place:
  assumes ha: "holds w a xs" and hb: "holds w b ys" and f: "fail_in w = None"
    and ne: "pa \<noteq> pb" and sep: "separate a b" and fits: "length ys \<le> m_capacity (m_data a)"
  shows "Vector_copy_assign pa pb b (a, w)
     = Done () (a\<lparr>m_size := length ys\<rparr>,
         w\<lparr>blocks := (blocks w)
             (m_buffer (m_data a) := map Obj ys @ replicate (m_capacity (m_data a) - length ys) Raw),
           constructed := constructed w + (length ys - length xs),
           destroyed := destroyed w + (length xs - length ys)\<rparr>)"
proof (cases "m_capacity (m_data a) = 0")
  case True
  with ha hb fits show ?thesis
    by (auto simp add: Vector_copy_assign_def ne then_do_def vend_def RawMemory_plus_def
        uninitialized_copy_n_def holds_def fun_eq_iff)
next
  case False
  let ?a = "m_buffer (m_data a)" and ?b = "m_buffer (m_data b)"
  let ?n = "length xs" and ?m = "length ys" and ?cap = "m_capacity (m_data a)"
  let ?k = "min ?n ?m"
  let ?Ra = "replicate (?cap - ?n) (Raw :: 'a slot)"
  let ?Rb = "replicate (m_capacity (m_data b) - ?m) (Raw :: 'a slot)"
  from False sep have ab: "?b \<noteq> ?a" by (auto simp: separate_def)
  from ha have as: "m_size a = ?n" "?n \<le> ?cap" "blocks w ?a = map Obj xs @ ?Ra"
    by (simp_all add: holds_def)
  from hb have bs: "m_size b = ?m" "blocks w ?b = map Obj ys @ ?Rb"
    by (simp_all add: holds_def)
  have blkb: "blocks w ?b = [] @ map Obj (take ?k ys) @ (map Obj (drop ?k ys) @ ?Rb)"
    using bs(2) by (simp flip: map_append)
  have blka: "blocks w ?a = [] @ map Obj (take ?k xs) @ (map Obj (drop ?k xs) @ ?Ra)"
    using as(3) by (simp flip: map_append)
  let ?w1 = "w\<lparr>blocks := (blocks w)(?a := [] @ map Obj (take ?k ys) @ (map Obj (drop ?k xs) @ ?Ra))\<rparr>"
  have c: "copy_n (?b, 0) ?k (?a, 0) w = Done () ?w1"
    using f ab by (intro copy_n_seg [OF _ _ blkb _ blka]) simp_all
  show ?thesis
  proof (cases "?m < ?n")
    case True
    then have k: "?k = ?m" by simp
    have d: "destroy_n (?a, ?m) (?n - ?m) ?w1
       = Done () (?w1\<lparr>blocks := (blocks ?w1)(?a := map Obj ys @ replicate (?n - ?m) Raw @ ?Ra),
                    destroyed := destroyed ?w1 + (?n - ?m)\<rparr>)"
      using True by (intro destroy_n_seg [where xs = "drop ?m xs"]) simp_all
    have r: "replicate (?n - ?m) Raw @ ?Ra = replicate (?cap - ?m) Raw"
      using True as by (simp flip: replicate_add)
    show ?thesis
      using True ne fits as bs c d r
      by (simp add: Vector_copy_assign_def then_do_def vbegin_def GetAddress_def ptr_add_def
          fun_eq_iff)
  next
    case False
    then have k: "?k = ?n" by simp
    have rep: "?Ra = replicate (?m - ?n) Raw @ replicate (?cap - ?m) Raw"
      using False fits by (simp flip: replicate_add)
    have b2: "blocks ?w1 ?b = map Obj (take ?n ys) @ map Obj (drop ?n ys) @ ?Rb"
      using bs(2) ab by (simp flip: map_append)
    have a2: "blocks ?w1 ?a = map Obj (take ?n ys) @ replicate (?m - ?n) Raw @ replicate (?cap - ?m) Raw"
      using False rep by simp
    have u: "uninitialized_copy_n (?b, ?n) (?m - ?n) (?a, ?n) ?w1
       = Done () (?w1\<lparr>blocks := (blocks ?w1)
            (?a := map Obj (take ?n ys) @ map Obj (drop ?n ys) @ replicate (?cap - ?m) Raw),
            constructed := constructed ?w1 + (?m - ?n)\<rparr>)"
      using f ab False by (intro uninitialized_copy_n_seg [OF _ _ b2 _ a2]) simp_all
    show ?thesis
      using False ne fits as bs c u
      by (simp add: Vector_copy_assign_def then_do_def vbegin_def vend_def GetAddress_def
          RawMemory_plus_def ptr_add_def fun_eq_iff flip: map_append)
  qed
qed

section \<open>A reallocation that returns had the storage it asked for\<close>

text \<open>
  Every construction of a call that returns went into a slot of its block. A
  reallocation that returns has therefore put \<open>size + 1\<close> objects into the new block,
  and a byte count that wrapped leaves room for fewer: the request did not wrap.
\<close>

lemma wrap_room:
  assumes s: "0 < s" and n: "n * s \<le> SIZE_MAX"
    and r: "Suc n \<le> size_t_mul (if n = 0 then 1 else n * 2) s div s"
  shows "(if n = 0 then 1 else n * 2) * s \<le> SIZE_MAX"
proof (rule ccontr)
  let ?c = "if n = 0 then 1 else n * 2"
  let ?M = "SIZE_MAX + 1"
  assume "\<not> ?c * s \<le> SIZE_MAX"
  then have big: "?M \<le> ?c * s" by simp
  from r have "Suc n * s \<le> (size_t_mul ?c s div s) * s" by (simp only: mult_le_mono1)
  also have "\<dots> \<le> size_t_mul ?c s" by simp
  finally have le: "Suc n * s \<le> (?c * s) mod ?M" by (simp add: size_t_mul_def)
  show False
  proof (cases "n = 0")
    case True
    with le have a: "s \<le> s mod ?M" by simp
    have b: "s mod ?M < ?M" by simp
    from big True have c: "?M \<le> s" by simp
    from a b c show False by linarith
  next
    case False
    then have c: "?c * s = 2 * (n * s)" by simp
    from big have b2: "?M \<le> 2 * (n * s)" unfolding c .
    from n have lt: "2 * (n * s) - ?M < ?M" by simp
    have "(2 * (n * s)) mod ?M = (2 * (n * s) - ?M) mod ?M"
      using b2 by (rule le_mod_geq)
    also have "\<dots> = 2 * (n * s) - ?M" using lt by (rule mod_less)
    finally have m: "(2 * (n * s)) mod ?M = 2 * (n * s) - ?M" .
    from le have "Suc n * s \<le> (2 * (n * s)) mod ?M" unfolding c .
    with m have "n * s + s \<le> 2 * (n * s) - ?M" by simp
    with n s show False by linarith
  qed
qed

lemma set_slot_len [simp]: "length (blocks (set_slot p s w) a) = length (blocks w a)"
  by (simp add: set_slot_def)

lemma may_throw_blocks: "may_throw fl w = Done () w' \<Longrightarrow> blocks w' = blocks w"
  by (auto simp: may_throw_def split: if_splits option.splits nat.splits)

lemma construct_at_room:
  "construct_at fl p x w = Done () w' \<Longrightarrow>
     snd p < length (blocks w (fst p)) \<and> length (blocks w' a) = length (blocks w a)"
  by (auto simp: construct_at_def slot_at_def split: option.splits slot.splits res.splits if_splits
      dest!: may_throw_blocks)

lemma destroy_at_len:
  "destroy_at p w = Done () w' \<Longrightarrow> length (blocks w' a) = length (blocks w a)"
  by (auto simp: destroy_at_def split: option.splits slot.splits)

lemma copy_construct_room:
  "copy_construct dst src w = Done () w' \<Longrightarrow>
     snd dst < length (blocks w (fst dst)) \<and> length (blocks w' a) = length (blocks w a)"
  by (auto simp: copy_construct_def split: option.splits slot.splits dest: construct_at_room)

lemma move_construct_room:
  "move_construct tr dst src w = Done () w' \<Longrightarrow>
     snd dst < length (blocks w (fst dst)) \<and> length (blocks w' a) = length (blocks w a)"
  by (auto simp: move_construct_def split: option.splits slot.splits res.splits
      dest: construct_at_room)

lemma destroy_n_len:
  "destroy_n p n w = Done () w' \<Longrightarrow> length (blocks w' a) = length (blocks w a)"
proof (induction n arbitrary: p w)
  case 0
  then show ?case by simp
next
  case (Suc n)
  from Suc.prems obtain w1 where 1: "destroy_at p w = Done () w1"
    and 2: "destroy_n (ptr_add p 1) n w1 = Done () w'"
    by (auto split: res.splits)
  from Suc.IH [OF 2] destroy_at_len [OF 1] show ?case by simp
qed

lemma uninitialized_copy_from_room:
  "uninitialized_copy_from first d k n w = Done () w' \<Longrightarrow>
     length (blocks w' a) = length (blocks w a) \<and>
     (0 < n \<longrightarrow> snd d + k + n \<le> length (blocks w (fst d)))"
proof (induction n arbitrary: k w)
  case 0
  then show ?case by simp
next
  case (Suc n)
  from Suc.prems obtain w1 where 1: "copy_construct (ptr_add d k) (ptr_add first k) w = Done () w1"
    and 2: "uninitialized_copy_from first d (Suc k) n w1 = Done () w'"
    by (auto split: res.splits)
  from copy_construct_room [OF 1] have r: "snd d + k < length (blocks w (fst d))"
    and l: "\<And>a. length (blocks w1 a) = length (blocks w a)"
    by (simp_all add: ptr_add_def)
  from Suc.IH [OF 2] r l show ?case by (cases n) auto
qed

lemma uninitialized_move_from_room:
  "uninitialized_move_from tr first d k n w = Done () w' \<Longrightarrow>
     length (blocks w' a) = length (blocks w a) \<and>
     (0 < n \<longrightarrow> snd d + k + n \<le> length (blocks w (fst d)))"
proof (induction n arbitrary: k w)
  case 0
  then show ?case by simp
next
  case (Suc n)
  from Suc.prems obtain w1 where 1: "move_construct tr (ptr_add d k) (ptr_add first k) w = Done () w1"
    and 2: "uninitialized_move_from tr first d (Suc k) n w1 = Done () w'"
    by (auto split: res.splits)
  from move_construct_room [OF 1] have r: "snd d + k < length (blocks w (fst d))"
    and l: "\<And>a. length (blocks w1 a) = length (blocks w a)"
    by (simp_all add: ptr_add_def)
  from Suc.IH [OF 2] r l show ?case by (cases n) auto
qed

lemma CopyOrMoveToNewBuffer_room:
  "CopyOrMoveToNewBuffer tr from to n w = Done () w' \<Longrightarrow>
     length (blocks w' a) = length (blocks w a) \<and>
     (0 < n \<longrightarrow> snd to + n \<le> length (blocks w (fst to)))"
  using uninitialized_copy_from_room [of "from" to 0 n w w' a]
    uninitialized_move_from_room [of tr "from" to 0 n w w' a]
  by (auto simp: CopyOrMoveToNewBuffer_def uninitialized_copy_n_def uninitialized_move_n_def
      split: if_splits)

lemma catch_rethrow_Done: "catch_rethrow m h = Done r s \<Longrightarrow> m = Done r s"
  by (cases m) (auto simp: catch_rethrow_def split: res.splits)

lemma then_do_Done:
  "then_do m f = Done r s \<Longrightarrow> \<exists>s1. m = Done () s1 \<and> f s1 = Done r s"
  by (cases m) (simp_all add: then_do_def)

lemma Reallocate_Done_room:
  assumes d: "ReallocateMemoryAddingNewElement tr i x (v, w) = Done p s'"
  shows "Suc (m_size v) \<le> size_t_mul (CalcNewCapacity v) (sizeof_T w) div sizeof_T w"
proof -
  let ?c = "CalcNewCapacity v" and ?na = "next_addr w"
  let ?L = "size_t_mul ?c (sizeof_T w) div sizeof_T w"
  let ?nd = "\<lparr>m_buffer = ?na, m_capacity = ?c\<rparr>"
  let ?w1 = "w\<lparr>blocks := (blocks w)(?na := replicate ?L Raw), next_addr := Suc ?na\<rparr>"
  have c: "?c \<noteq> 0" by (simp add: CalcNewCapacity_def)
  then have rs: "RawMemory_sized ?c w = (?nd, ?w1)"
    by (simp add: RawMemory_sized_def Allocate_def operator_new_def)
  have l1: "length (blocks ?w1 ?na) = ?L" by simp
  from d rs obtain w4 where
    t: "then_do (construct_at True (?na, i) x ?w1)
         (\<lambda>w2. then_do
            (catch_rethrow
               (then_do (CopyOrMoveToNewBuffer tr (vbegin v) (GetAddress ?nd) i w2)
                  (destroy_n (vbegin v) i))
               (destroy_at (?na, i)))
            (\<lambda>w3. if i < m_size v
               then catch_rethrow
                      (then_do
                         (CopyOrMoveToNewBuffer tr (ptr_add (vbegin v) i)
                            (ptr_add (GetAddress ?nd) (i + 1)) (m_size v - i) w3)
                         (destroy_n (ptr_add (vbegin v) i) (m_size v - i)))
                      (destroy_n (GetAddress ?nd) (i + 1))
               else Done () w3)) = Done () w4"
    by (auto simp: ReallocateMemoryAddingNewElement_def RawMemory_plus_def
        split: option.splits res.splits if_splits)
  from then_do_Done [OF t] obtain w2 where
    s2: "construct_at True (?na, i) x ?w1 = Done () w2"
    and t2: "then_do
            (catch_rethrow
               (then_do (CopyOrMoveToNewBuffer tr (vbegin v) (GetAddress ?nd) i w2)
                  (destroy_n (vbegin v) i))
               (destroy_at (?na, i)))
            (\<lambda>w3. if i < m_size v
               then catch_rethrow
                      (then_do
                         (CopyOrMoveToNewBuffer tr (ptr_add (vbegin v) i)
                            (ptr_add (GetAddress ?nd) (i + 1)) (m_size v - i) w3)
                         (destroy_n (ptr_add (vbegin v) i) (m_size v - i)))
                      (destroy_n (GetAddress ?nd) (i + 1))
               else Done () w3) = Done () w4"
    by blast
  from construct_at_room [OF s2, of ?na] l1 have i: "i < ?L" and l2: "length (blocks w2 ?na) = ?L"
    by simp_all
  from then_do_Done [OF t2] obtain w3 where
    s3: "catch_rethrow
               (then_do (CopyOrMoveToNewBuffer tr (vbegin v) (GetAddress ?nd) i w2)
                  (destroy_n (vbegin v) i))
               (destroy_at (?na, i)) = Done () w3"
    and t3: "(if i < m_size v
               then catch_rethrow
                      (then_do
                         (CopyOrMoveToNewBuffer tr (ptr_add (vbegin v) i)
                            (ptr_add (GetAddress ?nd) (i + 1)) (m_size v - i) w3)
                         (destroy_n (ptr_add (vbegin v) i) (m_size v - i)))
                      (destroy_n (GetAddress ?nd) (i + 1))
               else Done () w3) = Done () w4"
    by blast
  from then_do_Done [OF catch_rethrow_Done [OF s3]] obtain w2a where
    s3a: "CopyOrMoveToNewBuffer tr (vbegin v) (GetAddress ?nd) i w2 = Done () w2a"
    and s3b: "destroy_n (vbegin v) i w2a = Done () w3"
    by blast
  from CopyOrMoveToNewBuffer_room [OF s3a, of ?na] destroy_n_len [OF s3b, of ?na] l2
  have l3: "length (blocks w3 ?na) = ?L" by simp
  show ?thesis
  proof (cases "i < m_size v")
    case True
    with t3 have "catch_rethrow
                      (then_do
                         (CopyOrMoveToNewBuffer tr (ptr_add (vbegin v) i)
                            (ptr_add (GetAddress ?nd) (i + 1)) (m_size v - i) w3)
                         (destroy_n (ptr_add (vbegin v) i) (m_size v - i)))
                      (destroy_n (GetAddress ?nd) (i + 1)) = Done () w4"
      by simp
    from then_do_Done [OF catch_rethrow_Done [OF this]] obtain w3a where
      s4: "CopyOrMoveToNewBuffer tr (ptr_add (vbegin v) i)
             (ptr_add (GetAddress ?nd) (i + 1)) (m_size v - i) w3 = Done () w3a"
      by blast
    from CopyOrMoveToNewBuffer_room [OF s4, of ?na] True l3 show ?thesis
      by (simp add: ptr_add_def GetAddress_def)
  next
    case False
    with i show ?thesis by simp
  qed
qed

lemma Reallocate_Done_fits:
  assumes h: "holds w v xs"
    and d: "ReallocateMemoryAddingNewElement tr i x (v, w) = Done p s'"
  shows "fits w (CalcNewCapacity v)"
proof -
  from h have s: "0 < sizeof_T w" and n: "m_size v * sizeof_T w \<le> SIZE_MAX"
    using holds_fits_size [OF h] by (simp_all add: fits_def)
  from wrap_room [OF s n] Reallocate_Done_room [OF d] s show ?thesis
    by (simp add: fits_def CalcNewCapacity_def)
qed

lemma Reallocate_Done_in_range:
  assumes h: "holds w v xs"
    and d: "ReallocateMemoryAddingNewElement tr i x (v, w) = Done p s'"
  shows "m_size v * 2 \<le> SIZE_MAX"
proof -
  from Reallocate_Done_fits [OF h d]
  have s: "0 < sizeof_T w" and c: "CalcNewCapacity v * sizeof_T w \<le> SIZE_MAX"
    by (simp_all add: fits_def)
  have "m_size v * 2 \<le> CalcNewCapacity v" by (simp add: CalcNewCapacity_def)
  also from s have "\<dots> \<le> CalcNewCapacity v * sizeof_T w" by simp
  finally show ?thesis using c by simp
qed

section \<open>What the operations do to a vector\<close>

lemma holds_quiet [simp]: "holds (quiet w) v xs = holds w v xs"
  by (simp add: holds_def)

lemma element_quiet [simp]: "element (quiet w) v i = element w v i"
  by (simp add: element_def split: option.splits)

lemma contents_quiet [simp]: "contents (quiet w) v = contents w v"
  by (simp add: contents_def)

lemma Done_quiet_world:
  "follows quiet m m' \<Longrightarrow> m = Done r w' \<Longrightarrow> m' = Done r (quiet w')"
  by (simp add: follows_def)

lemma holds_element:
  "holds w v xs \<Longrightarrow> i < length xs \<Longrightarrow> element w v i = Some (xs ! i)"
  by (simp add: holds_def element_def Vector_index_def RawMemory_index_def slot_at_def nth_append)

lemma holds_Size: "holds w v xs \<Longrightarrow> Size v = length xs"
  by (simp add: holds_def Size_def)

lemma holds_contents:
  "holds w v xs \<Longrightarrow> contents w v = map Some xs"
  by (rule nth_equalityI) (simp_all add: contents_def holds_Size holds_element)


lemma EmplaceBack_total:
  assumes h: "holds w v xs" and f: "fail_in w = None"
    and fc: "length xs = m_capacity (m_data v) \<longrightarrow> fits w (CalcNewCapacity v)"
  shows "\<exists>v' w'. EmplaceBack tr x (v, w) = Done (m_buffer (m_data v'), length xs) (v', w')
     \<and> holds w' v' (xs @ [x]) \<and> fail_in w' = None \<and> sizeof_T w' = sizeof_T w"
proof (cases "length xs < m_capacity (m_data v)")
  case True
  from h True show ?thesis
    by (simp add: EmplaceBack_spare [OF h f True] f holds_def)
next
  case False
  with h have full: "m_capacity (m_data v) = length xs" by (simp add: holds_def)
  with h have e: "EmplaceBack tr x (v, w) = ReallocateMemoryAddingNewElement tr (length xs) x (v, w)"
    by (simp add: EmplaceBack_def holds_def)
  from fc full have fw: "fits w (CalcNewCapacity v)" by simp
  from h full fw show ?thesis
    unfolding e
    by (auto simp add: Reallocate_full [OF h f full order_refl fw] f holds_def CalcNewCapacity_def
        Suc_le_eq)
qed

lemma EmplaceBack_post:
  assumes h: "holds w v xs" and d: "EmplaceBack tr x (v, w) = Done p (v', w')"
  shows "holds w' v' (xs @ [x]) \<and> p = (m_buffer (m_data v'), length xs)"
proof -
  have q: "EmplaceBack tr x (v, quiet w) = Done p (v', quiet w')"
    by (rule Done_quiet [OF EmplaceBack_follows d])
  have fc: "length xs = m_capacity (m_data v) \<longrightarrow> fits w (CalcNewCapacity v)"
  proof
    assume "length xs = m_capacity (m_data v)"
    with h d have "ReallocateMemoryAddingNewElement tr (m_size v) x (v, w) = Done p (v', w')"
      by (simp add: EmplaceBack_def holds_def)
    from Reallocate_Done_fits [OF h this] show "fits w (CalcNewCapacity v)" .
  qed
  from EmplaceBack_total [of "quiet w" v xs tr x] h q fc show ?thesis
    by auto
qed

lemma PushBack_total:
  assumes h: "holds w v xs" and f: "fail_in w = None"
    and fc: "length xs = m_capacity (m_data v) \<longrightarrow> fits w (CalcNewCapacity v)"
  shows "\<exists>v' w'. PushBack tr x (v, w) = Done () (v', w')
     \<and> holds w' v' (xs @ [x]) \<and> fail_in w' = None \<and> sizeof_T w' = sizeof_T w"
  using EmplaceBack_total [OF h f fc, of tr x] by (auto simp: PushBack_def)

lemma PushBack_post:
  assumes h: "holds w v xs" and d: "PushBack tr x (v, w) = Done () (v', w')"
  shows "holds w' v' (xs @ [x])"
  using d EmplaceBack_post [OF h] by (auto simp: PushBack_def split: res.splits)

lemma PopBack_post:
  assumes h: "holds w v xs" and d: "PopBack (v, w) = Done () (v', w')"
  shows "xs \<noteq> [] \<and> holds w' v' (butlast xs) \<and> fail_in w' = fail_in w
     \<and> sizeof_T w' = sizeof_T w"
proof -
  from h d have ne: "xs \<noteq> []"
    by (auto simp: PopBack_def holds_def)
  from h ne d show ?thesis
    by (auto simp add: PopBack_nonempty [OF h ne] holds_def)
qed

lemma PopBack_total:
  assumes h: "holds w v xs" and ne: "xs \<noteq> []"
  shows "\<exists>v' w'. PopBack (v, w) = Done () (v', w')"
  by (simp add: PopBack_nonempty [OF h ne])

lemma Emplace_total:
  assumes h: "holds w v xs" and f: "fail_in w = None" and i: "i \<le> length xs"
    and fc: "length xs = m_capacity (m_data v) \<longrightarrow> fits w (CalcNewCapacity v)"
  shows "\<exists>v' w'. Emplace tr (m_buffer (m_data v), i) x (v, w)
        = Done (m_buffer (m_data v'), i) (v', w')
     \<and> holds w' v' (take i xs @ x # drop i xs) \<and> fail_in w' = None"
proof (cases "i = length xs")
  case True
  with h have e: "Emplace tr (m_buffer (m_data v), i) x (v, w) = EmplaceBack tr x (v, w)"
    by (simp add: Emplace_def vbegin_def GetAddress_def holds_def)
  from EmplaceBack_total [OF h f fc, of tr x] True show ?thesis
    unfolding e by auto
next
  case False
  with i have lt: "i < length xs" by simp
  show ?thesis
  proof (cases "length xs < m_capacity (m_data v)")
    case True
    from h lt True show ?thesis
      by (simp add: Emplace_in_place [OF h f lt True] f holds_def)
  next
    case False
    with h have full: "m_capacity (m_data v) = length xs" by (simp add: holds_def)
    with h lt have e: "Emplace tr (m_buffer (m_data v), i) x (v, w)
        = ReallocateMemoryAddingNewElement tr i x (v, w)"
      by (simp add: Emplace_def vbegin_def GetAddress_def holds_def)
    from fc full have fw: "fits w (CalcNewCapacity v)" by simp
    from h full lt fw show ?thesis
      unfolding e
      by (auto simp add: Reallocate_full [OF h f full i fw] f holds_def CalcNewCapacity_def
          Suc_le_eq)
  qed
qed

lemma Emplace_post:
  assumes h: "holds w v xs" and i: "i \<le> length xs"
    and d: "Emplace tr (m_buffer (m_data v), i) x (v, w) = Done p (v', w')"
  shows "holds w' v' (take i xs @ x # drop i xs) \<and> p = (m_buffer (m_data v'), i)"
proof -
  have q: "Emplace tr (m_buffer (m_data v), i) x (v, quiet w) = Done p (v', quiet w')"
    by (rule Done_quiet [OF Emplace_follows d])
  have fc: "length xs = m_capacity (m_data v) \<longrightarrow> fits w (CalcNewCapacity v)"
  proof
    assume "length xs = m_capacity (m_data v)"
    with h i d have "ReallocateMemoryAddingNewElement tr i x (v, w) = Done p (v', w')"
      by (auto simp: Emplace_def EmplaceBack_def vbegin_def GetAddress_def holds_def Let_def
          split: if_splits)
    from Reallocate_Done_fits [OF h this] show "fits w (CalcNewCapacity v)" .
  qed
  from Emplace_total [of "quiet w" v xs i tr x] h i q fc show ?thesis
    by auto
qed

lemma Erase_total:
  assumes h: "holds w v xs" and f: "fail_in w = None" and i: "i < length xs"
  shows "\<exists>v' w'. Erase tr (m_buffer (m_data v), i) (v, w)
        = Done (m_buffer (m_data v'), i) (v', w')
     \<and> holds w' v' (take i xs @ drop (Suc i) xs) \<and> fail_in w' = None"
  using h i by (auto simp add: Erase_inside [OF h f i] f holds_def)

lemma Erase_post:
  assumes h: "holds w v xs" and i: "i < length xs"
    and d: "Erase tr (m_buffer (m_data v), i) (v, w) = Done p (v', w')"
  shows "holds w' v' (take i xs @ drop (Suc i) xs) \<and> p = (m_buffer (m_data v'), i)"
proof -
  have q: "Erase tr (m_buffer (m_data v), i) (v, quiet w) = Done p (v', quiet w')"
    by (rule Done_quiet [OF Erase_follows d])
  from Erase_total [of "quiet w" v xs i tr] h i q show ?thesis
    by auto
qed

lemma run_calls_post:
  "holds w v xs \<Longrightarrow> run_calls tr cs (v, w) = Done () (v', w') \<Longrightarrow>
   \<exists>ys. kept cs xs = Some ys \<and> holds w' v' ys"
proof (induction cs arbitrary: v w xs)
  case Nil
  then show ?case by simp
next
  case (Cons c cs)
  show ?case
  proof (cases c)
    case (Push x)
    with Cons.prems(2) obtain v1 w1 where
      p: "PushBack tr x (v, w) = Done () (v1, w1)" and r: "run_calls tr cs (v1, w1) = Done () (v', w')"
      by (auto dest!: then_do_Done)
    from PushBack_post [OF Cons.prems(1) p] have "holds w1 v1 (xs @ [x])" .
    from Cons.IH [OF this r] Push show ?thesis by simp
  next
    case Pop
    with Cons.prems(2) obtain v1 w1 where
      p: "PopBack (v, w) = Done () (v1, w1)" and r: "run_calls tr cs (v1, w1) = Done () (v', w')"
      by (auto dest!: then_do_Done)
    from PopBack_post [OF Cons.prems(1) p] have ne: "xs \<noteq> []" and h1: "holds w1 v1 (butlast xs)"
      by simp_all
    from Cons.IH [OF h1 r] Pop ne show ?thesis by simp
  qed
qed

lemma run_calls_total:
  "holds w v xs \<Longrightarrow> fail_in w = None \<Longrightarrow> kept cs xs = Some ys \<Longrightarrow>
   fits w (2 * (length xs + pushes cs)) \<Longrightarrow>
   \<exists>v' w'. run_calls tr cs (v, w) = Done () (v', w')"
proof (induction cs arbitrary: v w xs)
  case Nil
  then show ?case by simp
next
  case (Cons c cs)
  show ?case
  proof (cases c)
    case (Push x)
    from Cons.prems(1) have "CalcNewCapacity v \<le> 2 * (length xs + pushes (c # cs))"
      by (simp add: CalcNewCapacity_def holds_def Push)
    from fits_mono [OF Cons.prems(4) this]
    have fc: "length xs = m_capacity (m_data v) \<longrightarrow> fits w (CalcNewCapacity v)" by simp
    from PushBack_total [OF Cons.prems(1,2) fc, of tr x] obtain v1 w1 where
      p: "PushBack tr x (v, w) = Done () (v1, w1)" and h1: "holds w1 v1 (xs @ [x])"
      and f1: "fail_in w1 = None" and s1: "sizeof_T w1 = sizeof_T w"
      by blast
    from Cons.prems(3) Push have k1: "kept cs (xs @ [x]) = Some ys" by simp
    from Cons.prems(4) Push have "fits w1 (2 * (length (xs @ [x]) + pushes cs))"
      by (simp add: fits_same [OF s1])
    from Cons.IH [OF h1 f1 k1 this] p Push show ?thesis
      by (simp add: then_do_def)
  next
    case Pop
    with Cons.prems(3) have ne: "xs \<noteq> []" and k: "kept cs (butlast xs) = Some ys"
      by (simp_all split: if_splits)
    from PopBack_total [OF Cons.prems(1) ne] obtain v1 w1 where
      p: "PopBack (v, w) = Done () (v1, w1)"
      by blast
    from PopBack_post [OF Cons.prems(1) p] Cons.prems(2)
    have h1: "holds w1 v1 (butlast xs)" and f1: "fail_in w1 = None"
      and s1: "sizeof_T w1 = sizeof_T w"
      by simp_all
    have "2 * (length (butlast xs) + pushes cs) \<le> 2 * (length xs + pushes (c # cs))"
      by (simp add: Pop)
    from fits_mono [OF Cons.prems(4) this] have "fits w1 (2 * (length (butlast xs) + pushes cs))"
      by (simp add: fits_same [OF s1])
    from Cons.IH [OF h1 f1 k this] p Pop show ?thesis
      by (simp add: then_do_def)
  qed
qed

lemma kept_take:
  "kept cs xs = Some ys \<Longrightarrow> \<exists>zs. kept (take k cs) xs = Some zs"
proof (induction cs xs arbitrary: k rule: kept.induct)
  case (1 xs)
  then show ?case by simp
next
  case (2 x cs xs)
  then show ?case by (cases k) simp_all
next
  case (3 cs xs)
  then show ?case by (cases k) (simp_all split: if_splits)
qed

lemma kept_counts:
  "kept cs xs = Some ys \<Longrightarrow> length ys + pops cs = length xs + pushes cs"
proof (induction cs xs rule: kept.induct)
  case (1 xs)
  then show ?case by simp
next
  case (2 x cs xs)
  then show ?case by simp
next
  case (3 cs xs)
  then have "length ys + pops cs = length (butlast xs) + pushes cs" and "xs \<noteq> []"
    by (simp_all split: if_splits)
  then show ?case by (simp add: Suc_le_eq)
qed

lemma holds_slot:
  "holds w v xs \<Longrightarrow> i < length xs \<Longrightarrow>
   slot_at w (m_buffer (m_data v), i) = Some (Obj (xs ! i))"
  by (simp add: holds_def slot_at_def nth_append)

lemma cursor_at: "ptr_add (vbegin v) i = (m_buffer (m_data v), i)"
  by (simp add: ptr_add_def vbegin_def GetAddress_def)

lemma take_insert_drop: "i \<le> length xs \<Longrightarrow>
   take i (take i xs @ x # drop i xs) @ drop (Suc i) (take i xs @ x # drop i xs) = xs"
  by (simp add: min_absorb2)



lemma same_but_refl [simp]: "same_but t w w"
  by (simp add: same_but_def)

lemma same_but_other: "same_but t w w' \<Longrightarrow> c \<noteq> t \<Longrightarrow> blocks w' c = blocks w c"
  unfolding same_but_def by (metis fun_upd_other)

lemma same_but_trans: "same_but t w w1 \<Longrightarrow> same_but t w1 w2 \<Longrightarrow> same_but t w w2"
  unfolding same_but_def by (metis fun_upd_upd)

lemma may_throw_same: "final_state (may_throw fl w) = Some w' \<Longrightarrow> same_but t w w'"
  by (auto simp: final_state_def may_throw_def same_but_def split: if_splits option.splits nat.splits)

lemma construct_at_same:
  "final_state (construct_at fl p x w) = Some w' \<Longrightarrow> same_but (fst p) w w'"
  by (auto simp: final_state_def construct_at_def may_throw_def set_slot_def same_but_def
      split: if_splits option.splits nat.splits slot.splits)

lemma copy_construct_same:
  "final_state (copy_construct p q w) = Some w' \<Longrightarrow> same_but (fst p) w w'"
  using construct_at_same [of _ p _ w w']
  by (auto simp: copy_construct_def final_state_def split: option.splits slot.splits)

lemma destroy_at_same:
  "final_state (destroy_at p w) = Some w' \<Longrightarrow> same_but (fst p) w w'"
  by (auto simp: final_state_def destroy_at_def set_slot_def same_but_def
      split: option.splits slot.splits)

lemma destroy_n_same:
  "final_state (destroy_n p n w) = Some w' \<Longrightarrow> same_but (fst p) w w'"
proof (induction n arbitrary: p w)
  case 0
  then show ?case by (simp add: final_state_def)
next
  case (Suc n)
  show ?case
  proof (cases "destroy_at p w")
    case (Done r w1)
    with Suc.prems have "final_state (destroy_n (ptr_add p 1) n w1) = Some w'" by simp
    from Suc.IH [OF this] have "same_but (fst p) w1 w'" by (simp add: ptr_add_def)
    moreover from Done have "same_but (fst p) w w1"
      by (intro destroy_at_same) (simp add: final_state_def)
    ultimately show ?thesis by (blast intro: same_but_trans)
  next
    case (Thrown w1)
    with Suc.prems show ?thesis
      by (auto intro!: destroy_at_same simp: final_state_def)
  next
    case Undefined
    with Suc.prems show ?thesis by (simp add: final_state_def)
  qed
qed

lemma destroy_n_not_Thrown: "destroy_n p n w \<noteq> Thrown s"
  by (induction n arbitrary: p w)
     (auto simp: destroy_at_def split: res.splits option.splits slot.splits)

lemma uninitialized_copy_from_same:
  "final_state (uninitialized_copy_from a b k n w) = Some w' \<Longrightarrow> same_but (fst b) w w'"
proof (induction n arbitrary: k w)
  case 0
  then show ?case by (simp add: final_state_def)
next
  case (Suc n)
  show ?case
  proof (cases "copy_construct (ptr_add b k) (ptr_add a k) w")
    case (Done r w1)
    with Suc.prems have "final_state (uninitialized_copy_from a b (Suc k) n w1) = Some w'" by simp
    from Suc.IH [OF this] have "same_but (fst b) w1 w'" .
    moreover from Done have "same_but (fst b) w w1"
      using copy_construct_same [of "ptr_add b k" "ptr_add a k" w w1]
      by (simp add: final_state_def ptr_add_def)
    ultimately show ?thesis by (blast intro: same_but_trans)
  next
    case (Thrown w1)
    then have 1: "same_but (fst b) w w1"
      using copy_construct_same [of "ptr_add b k" "ptr_add a k" w w1]
      by (simp add: final_state_def ptr_add_def)
    from Thrown Suc.prems have "final_state (destroy_n b k w1) = Some w'"
      by (auto simp: final_state_def split: res.splits)
    from destroy_n_same [OF this] 1 show ?thesis by (blast intro: same_but_trans)
  next
    case Undefined
    with Suc.prems show ?thesis by (simp add: final_state_def)
  qed
qed

lemma Vector_copy_ctor_Thrown:
  assumes h: "holds w a xs" and t: "Vector_copy_ctor b w = Thrown w1"
  shows "holds w1 a xs"
proof (cases "m_size b = 0")
  case True
  with t show ?thesis
    by (simp add: Vector_copy_ctor_def RawMemory_sized_def Allocate_def uninitialized_copy_n_def)
next
  case False
  let ?na = "next_addr w"
  let ?L = "size_t_mul (m_size b) (sizeof_T w) div sizeof_T w"
  let ?w0 = "w\<lparr>blocks := (blocks w)(?na := replicate ?L Raw), next_addr := Suc ?na\<rparr>"
  have rs: "RawMemory_sized (m_size b) w = (\<lparr>m_buffer = ?na, m_capacity = m_size b\<rparr>, ?w0)"
    using False by (simp add: RawMemory_sized_def Allocate_def operator_new_def)
  from t obtain w2 where
    u: "uninitialized_copy_from (GetAddress (m_data b)) (?na, 0) 0 (m_size b) ?w0 = Thrown w2"
    and w1: "w1 = Deallocate ?na w2"
    unfolding Vector_copy_ctor_def rs uninitialized_copy_n_def
    by (simp add: GetAddress_def RawMemory_dtor_def split: res.splits)
  from u have s: "same_but ?na ?w0 w2"
    using uninitialized_copy_from_same [of "GetAddress (m_data b)" "(?na, 0)" 0 "m_size b" ?w0 w2]
    by (simp add: final_state_def)
  from h have ne: "m_buffer (m_data a) \<noteq> ?na" by (simp add: holds_def)
  from same_but_other [OF s ne] ne
  have b: "blocks w2 (m_buffer (m_data a)) = blocks w (m_buffer (m_data a))"
    by simp
  from s have n: "next_addr w2 = Suc ?na" by (simp add: same_but_def)
  have "blocks w1 (m_buffer (m_data a)) = blocks w (m_buffer (m_data a))"
    using b ne unfolding w1 by (simp add: Deallocate_def)
  moreover have "next_addr w1 = Suc ?na"
    using n unfolding w1 by (simp add: Deallocate_def)
  moreover have "fits w1 (m_capacity (m_data a)) = fits w (m_capacity (m_data a))"
    using s unfolding w1 by (simp add: same_but_def fits_def Deallocate_def)
  ultimately show ?thesis
    using h by (simp add: holds_def)
qed

lemma Vector_copy_assign_total:
  assumes ha: "holds w a xs" and hb: "holds w b ys" and f: "fail_in w = None"
    and ne: "pa \<noteq> pb" and sep: "separate a b"
  shows "\<exists>a' w'. Vector_copy_assign pa pb b (a, w) = Done () (a', w')
     \<and> holds w' a' ys \<and> holds w' b ys
     \<and> (if m_capacity (m_data a) < length ys
         then m_buffer (m_data a') = next_addr w \<and> m_capacity (m_data a') = length ys
              \<and> blocks w' (m_buffer (m_data a)) = []
              \<and> constructed w' = constructed w + length ys
              \<and> destroyed w' = destroyed w + length xs
         else m_data a' = m_data a
              \<and> constructed w' = constructed w + (length ys - length xs)
              \<and> destroyed w' = destroyed w + (length xs - length ys))"
proof (cases "m_capacity (m_data a) < length ys")
  case True
  from ha hb True have "m_buffer (m_data b) \<noteq> m_buffer (m_data a)"
    using sep by (auto simp: separate_def holds_def)
  moreover from holds_fits_size [OF hb] hb have "fits w (length ys)" by (simp add: holds_def)
  ultimately show ?thesis
    using ha hb True
    by (auto simp add: Vector_copy_assign_grow [OF ha hb f ne True] holds_def)
next
  case False
  then have fits: "length ys \<le> m_capacity (m_data a)" by simp
  from ha hb sep have hb': "m_buffer (m_data b) = m_buffer (m_data a) \<Longrightarrow> ys = [] \<and> m_capacity (m_data b) = 0"
    by (auto simp: separate_def holds_def)
  from ha hb False hb' show ?thesis
    by (auto simp add: Vector_copy_assign_in_place [OF ha hb f ne sep fits] holds_def)
qed

lemma Vector_dtor_not_Thrown: "Vector_dtor v w \<noteq> Thrown s"
  using destroy_n_not_Thrown [of "vbegin v" "m_size v" w]
  by (auto simp: Vector_dtor_def then_do_def split: res.splits)

lemma Vector_copy_assign_Thrown:
  assumes ha: "holds w a xs" and t: "Vector_copy_assign pa pb b (a, w) = Thrown (a1, w1)"
  shows "a1 = a \<and> (m_capacity (m_data a) < m_size b \<longrightarrow> holds w1 a xs)"
proof (cases "m_capacity (m_data a) < m_size b")
  case True
  with t have ne: "pa \<noteq> pb"
    by (auto simp: Vector_copy_assign_def split: if_splits)
  from t True ne have "Vector_copy_ctor b w = Thrown w1 \<and> a1 = a"
    using Vector_dtor_not_Thrown
    by (auto simp: Vector_copy_assign_def with_vec_def split: res.splits prod.splits)
  with Vector_copy_ctor_Thrown [OF ha] True show ?thesis by blast
next
  case False
  with t show ?thesis
    by (auto simp: Vector_copy_assign_def split: res.splits if_splits)
qed

lemma Reallocate_Done_shape:
  "ReallocateMemoryAddingNewElement tr index x (v, w) = Done p (v', w') \<Longrightarrow>
     m_capacity (m_data v') = CalcNewCapacity v \<and> m_size v' = Suc (m_size v)"
  by (auto simp: ReallocateMemoryAddingNewElement_def RawMemory_sized_def RawMemory_Swap_def
      Allocate_def operator_new_def split: prod.splits option.splits res.splits if_splits)

lemma Vector_move_assign_shape:
  "Vector_move_assign this rhs w
     = ((\<lparr>m_data = m_data rhs, m_size = m_size rhs\<rparr>, Vector_default),
        Deallocate (m_buffer (m_data this)) w)"
  by (cases "m_data rhs")
     (simp add: Vector_move_assign_def RawMemory_move_assign_def Vector_default_def
       RawMemory_default_def)

lemma Vector_move_ctor_shape:
  "Vector_move_ctor other w
     = ((\<lparr>m_data = m_data other, m_size = m_size other\<rparr>, Vector_default), w)"
  by (cases "m_data other")
     (simp add: Vector_move_ctor_def RawMemory_move_ctor_def Vector_default_def
       RawMemory_default_def Deallocate_def)

lemma Vector_move_assign_never_destroys:
  "destroyed (snd (Vector_move_assign this rhs w)) = destroyed w"
  by (simp add: Vector_move_assign_shape Deallocate_def)

section \<open>The claims\<close>

text \<open>
  C1 (the code departs from the claim). The vector \<open>[10, 20]\<close> is full; \<open>Insert\<close> at index 1
  reallocates. The copy constructor throws on its third call, which is the copy of the
  trailing element 20, after the leading element 10 was copied and its original
  destroyed. The exception leaves size 2 and capacity 2, but slot 0 of the vector's
  buffer is raw storage and one object is alive where two were before the call.
\<close>

theorem Insert_trailing_throw_not_strong:
  "Insert copying_T (2, 1) 30 (vec_a, world_a\<lparr>fail_in := Some 2\<rparr>)
     = Thrown (vec_a, world_a\<lparr>blocks := (\<lambda>_. [])(2 := [Raw, Obj 20]), next_addr := 4,
                constructed := 5, destroyed := 4\<rparr>)
   \<and> m_size vec_a = m_capacity (m_data vec_a)
   \<and> blocks world_a (m_buffer (m_data vec_a)) = [Obj 10, Obj 20]
   \<and> alive world_a = 2
   \<and> alive (world_a\<lparr>blocks := (\<lambda>_. [])(2 := [Raw, Obj 20]), next_addr := 4,
                constructed := 5, destroyed := 4\<rparr>) = 1"
  using Insert_trailing_copy_throws by (simp add: alive_def vec_a_def world_a_def)

text \<open>
  C2 (the code departs from the claim). Move assignment of \<open>[30]\<close> to \<open>[10, 20]\<close> takes
  the buffer and the size of the source and empties the source, but it releases the
  destination's buffer without a destructor call: \<open>destroyed\<close> is what it was, and the
  two elements the destination held are never destroyed.
\<close>

theorem move_assign_skips_destructors:
  "Vector_move_assign vec_a vec_b world_ab
     = ((vec_b, Vector_default), world_ab\<lparr>blocks := (blocks world_ab)(2 := [])\<rparr>)
   \<and> blocks world_ab (m_buffer (m_data vec_a)) = [Obj 10, Obj 20]
   \<and> destroyed (snd (Vector_move_assign vec_a vec_b world_ab)) = destroyed world_ab"
  by (simp add: Vector_move_assign_def run_defs)

text \<open>
  C3. On a full vector, \<open>EmplaceBack\<close>, \<open>PushBack\<close>, and \<open>Emplace\<close> and \<open>Insert\<close> at any index
  up to the size, all return when no operation of \<open>T\<close> throws and the byte count of
  \<open>max 1 (2 * size)\<close> objects is a \<open>size_t\<close> value; and whenever one of the four returns,
  the capacity is \<open>max 1 (2 * size)\<close>, \<open>size\<close> being the size before the call, and the
  size has grown by one.
\<close>

theorem growth_capacity:
  "m_size v = m_capacity (m_data v) \<Longrightarrow>
     (holds w v xs \<longrightarrow> i \<le> Size v \<longrightarrow> fail_in w = None \<longrightarrow> fits w (max 1 (Size v * 2)) \<longrightarrow>
        (\<exists>p v' w'. EmplaceBack tr x (v, w) = Done p (v', w')) \<and>
        (\<exists>v' w'. PushBack tr x (v, w) = Done () (v', w')) \<and>
        (\<exists>p v' w'. Emplace tr (ptr_add (vbegin v) i) x (v, w) = Done p (v', w')) \<and>
        (\<exists>p v' w'. Insert tr (ptr_add (vbegin v) i) x (v, w) = Done p (v', w'))) \<and>
     (\<forall>p v' w'.
        EmplaceBack tr x (v, w) = Done p (v', w') \<or> PushBack tr x (v, w) = Done () (v', w')
          \<or> Emplace tr pos x (v, w) = Done p (v', w') \<or> Insert tr pos x (v, w) = Done p (v', w')
        \<longrightarrow> Capacity v' = max 1 (Size v * 2) \<and> Size v' = Size v + 1)"
proof (intro conjI impI allI)
  assume full: "m_size v = m_capacity (m_data v)" and h: "holds w v xs" and i: "i \<le> Size v"
    and f: "fail_in w = None" and fw: "fits w (max 1 (Size v * 2))"
  from fw have fc: "length xs = m_capacity (m_data v) \<longrightarrow> fits w (CalcNewCapacity v)"
    by (simp add: CalcNewCapacity_max)
  from h i have il: "i \<le> length xs" by (simp add: holds_Size)
  from EmplaceBack_total [OF h f fc, of tr x]
  show "\<exists>p v' w'. EmplaceBack tr x (v, w) = Done p (v', w')" by blast
  from PushBack_total [OF h f fc, of tr x]
  show "\<exists>v' w'. PushBack tr x (v, w) = Done () (v', w')" by blast
  from Emplace_total [OF h f il fc, of tr x]
  show e: "\<exists>p v' w'. Emplace tr (ptr_add (vbegin v) i) x (v, w) = Done p (v', w')"
    by (auto simp: cursor_at)
  then show "\<exists>p v' w'. Insert tr (ptr_add (vbegin v) i) x (v, w) = Done p (v', w')"
    by (simp add: Insert_def)
next
  fix p v' w'
  assume "m_size v = m_capacity (m_data v)"
    and "EmplaceBack tr x (v, w) = Done p (v', w') \<or> PushBack tr x (v, w) = Done () (v', w')
          \<or> Emplace tr pos x (v, w) = Done p (v', w') \<or> Insert tr pos x (v, w) = Done p (v', w')"
  then have "m_capacity (m_data v') = CalcNewCapacity v \<and> m_size v' = Suc (m_size v)"
    by (auto simp: EmplaceBack_def PushBack_def Emplace_def Insert_def Let_def
        dest!: Reallocate_Done_shape split: res.splits if_splits)
  then show "Capacity v' = max 1 (Size v * 2)" and "Size v' = Size v + 1"
    by (simp_all add: Capacity_def Size_def CalcNewCapacity_def)
qed

theorem growth_capacity_witness:
  "m_size vec_a = m_capacity (m_data vec_a) \<and> holds world_a vec_a [10, 20] \<and> 1 \<le> Size vec_a
   \<and> fail_in world_a = None \<and> fits world_a (max 1 (Size vec_a * 2))
   \<and> (\<exists>v' w'. PushBack copying_T 30 (vec_a, world_a) = Done () (v', w'))
   \<and> Insert copying_T (ptr_add (vbegin vec_a) 1) 30 (vec_a, world_a)
       = Done (3, 1) (\<lparr>m_data = \<lparr>m_buffer = 3, m_capacity = 4\<rparr>, m_size = 3\<rparr>,
           world_a\<lparr>blocks := (\<lambda>_. [])(3 := [Obj 10, Obj 30, Obj 20, Raw]), next_addr := 4,
             constructed := 6, destroyed := 3\<rparr>)
   \<and> Capacity \<lparr>m_data = \<lparr>m_buffer = 3, m_capacity = 4\<rparr>, m_size = 3\<rparr> = max 1 (Size vec_a * 2)
   \<and> Size \<lparr>m_data = \<lparr>m_buffer = 3, m_capacity = 4\<rparr>, m_size = 3\<rparr> = Size vec_a + 1
   \<and> m_size Vector_default = m_capacity (m_data Vector_default)
   \<and> PushBack copying_T 30 (Vector_default, world_a) = Done () (vec_b, world_ab)
   \<and> Capacity vec_b = max 1 (Size Vector_default * 2)"
proof -
  have full: "m_size vec_a = m_capacity (m_data vec_a)"
    by (simp add: vec_a_def)
  have i: "1 \<le> Size vec_a" by (simp add: Size_def vec_a_def)
  have f: "fail_in world_a = None" by (simp add: world_a_def)
  have fw: "fits world_a (max 1 (Size vec_a * 2))"
    by (simp add: Size_def vec_a_def world_a_def fits_few)
  note t = growth_capacity [OF full, of world_a "[10, 20]" 1 copying_T 30 "ptr_add (vbegin vec_a) 1"]
  from t holds_vec_a i f fw
  have p: "\<exists>v' w'. PushBack copying_T 30 (vec_a, world_a) = Done () (v', w')"
    by blast
  from t
  have "\<forall>p v' w'. Insert copying_T (ptr_add (vbegin vec_a) 1) 30 (vec_a, world_a) = Done p (v', w')
      \<longrightarrow> Capacity v' = max 1 (Size vec_a * 2) \<and> Size v' = Size vec_a + 1"
    by blast
  from this [rule_format, OF Insert_middle]
  have c: "Capacity \<lparr>m_data = \<lparr>m_buffer = 3, m_capacity = 4\<rparr>, m_size = 3\<rparr> = max 1 (Size vec_a * 2)"
    and s: "Size \<lparr>m_data = \<lparr>m_buffer = 3, m_capacity = 4\<rparr>, m_size = 3\<rparr> = Size vec_a + 1"
    by simp_all
  have full0: "m_size Vector_default = m_capacity (m_data Vector_default)"
    by (simp add: Vector_default_def RawMemory_default_def)
  from growth_capacity [OF full0, of world_a "[]" 0 copying_T 30 "(0, 0)"]
  have "\<forall>v' w'. PushBack copying_T 30 (Vector_default, world_a) = Done () (v', w')
      \<longrightarrow> Capacity v' = max 1 (Size Vector_default * 2)"
    by blast
  from this [rule_format, OF third_push]
  have c0: "Capacity vec_b = max 1 (Size Vector_default * 2)" .
  from full holds_vec_a i f fw p Insert_middle c s full0 third_push c0 show ?thesis
    by (intro conjI)
qed

text \<open>
  C4. Copy assignment \<open>a = b\<close> of distinct objects: when it returns, \<open>a\<close> holds the
  elements of \<open>b\<close> in order and has the size of \<open>b\<close>, and \<open>b\<close> is as before. Assigning
  an object to itself changes nothing. When the size of \<open>b\<close> exceeds the capacity of \<open>a\<close>
  the result sits in a fresh buffer that took one copy construction per element of \<open>b\<close>,
  the old elements of \<open>a\<close> are destroyed and its old buffer released; and when the copy
  throws, \<open>a\<close> still holds what it held. Otherwise the buffer of \<open>a\<close> is kept, the only
  constructions are those of the elements of \<open>b\<close> beyond the old size of \<open>a\<close> and the
  only destructions those of the elements of \<open>a\<close> beyond the size of \<open>b\<close>. Whenever the
  assignment throws, the fields of \<open>a\<close>, its size among them, are the old ones.
\<close>

theorem copy_assignment:
  "holds w a xs \<Longrightarrow> holds w b ys \<Longrightarrow> separate a b \<Longrightarrow>
     Vector_copy_assign pa pa a (a, w) = Done () (a, w) \<and>
     (pa \<noteq> pb \<longrightarrow>
        (fail_in w = None \<longrightarrow> (\<exists>a' w'. Vector_copy_assign pa pb b (a, w) = Done () (a', w'))) \<and>
        (\<forall>a' w'. Vector_copy_assign pa pb b (a, w) = Done () (a', w') \<longrightarrow>
           holds w' a' ys \<and> holds w' b ys \<and> Size a' = Size b \<and>
           contents w' a' = contents w b \<and> contents w' b = contents w b \<and>
           (if Capacity a < Size b
            then m_buffer (m_data a') = next_addr w \<and> Capacity a' = Size b
                 \<and> blocks w' (m_buffer (m_data a)) = []
                 \<and> constructed w' = constructed w + Size b
                 \<and> destroyed w' = destroyed w + Size a
            else m_data a' = m_data a
                 \<and> constructed w' = constructed w + (Size b - Size a)
                 \<and> destroyed w' = destroyed w + (Size a - Size b))) \<and>
        (\<forall>a1 w1. Vector_copy_assign pa pb b (a, w) = Thrown (a1, w1) \<longrightarrow>
           a1 = a \<and> (Capacity a < Size b \<longrightarrow> holds w1 a xs)))"
proof (intro conjI impI allI)
  show "Vector_copy_assign pa pa a (a, w) = Done () (a, w)"
    by (simp add: Vector_copy_assign_def)
next
  assume "holds w a xs" "holds w b ys" "separate a b" "pa \<noteq> pb" "fail_in w = None"
  from Vector_copy_assign_total [OF this(1,2,5,4,3)]
  show "\<exists>a' w'. Vector_copy_assign pa pb b (a, w) = Done () (a', w')" by blast
next
  fix a' w'
  assume ha: "holds w a xs" and hb: "holds w b ys" and sep: "separate a b" and ne: "pa \<noteq> pb"
    and d: "Vector_copy_assign pa pb b (a, w) = Done () (a', w')"
  have q: "Vector_copy_assign pa pb b (a, quiet w) = Done () (a', quiet w')"
    by (rule Done_quiet [OF Vector_copy_assign_follows d])
  from Vector_copy_assign_total [of "quiet w" a xs b ys pa pb] ha hb sep ne q
  have p: "holds w' a' ys" "holds w' b ys"
    "if m_capacity (m_data a) < length ys
         then m_buffer (m_data a') = next_addr w \<and> m_capacity (m_data a') = length ys
              \<and> blocks w' (m_buffer (m_data a)) = []
              \<and> constructed w' = constructed w + length ys
              \<and> destroyed w' = destroyed w + length xs
         else m_data a' = m_data a
              \<and> constructed w' = constructed w + (length ys - length xs)
              \<and> destroyed w' = destroyed w + (length xs - length ys)"
    by auto
  from p(1) show "holds w' a' ys" .
  from p(2) show "holds w' b ys" .
  from p(1) hb show "Size a' = Size b" by (simp add: holds_Size)
  from p(1) hb show "contents w' a' = contents w b" by (simp add: holds_contents)
  from p(2) hb show "contents w' b = contents w b" by (simp add: holds_contents)
  from p(3) ha hb
  show "if Capacity a < Size b
            then m_buffer (m_data a') = next_addr w \<and> Capacity a' = Size b
                 \<and> blocks w' (m_buffer (m_data a)) = []
                 \<and> constructed w' = constructed w + Size b
                 \<and> destroyed w' = destroyed w + Size a
            else m_data a' = m_data a
                 \<and> constructed w' = constructed w + (Size b - Size a)
                 \<and> destroyed w' = destroyed w + (Size a - Size b)"
    by (simp add: holds_Size Capacity_def)
next
  fix a1 w1
  assume ha: "holds w a xs" and t: "Vector_copy_assign pa pb b (a, w) = Thrown (a1, w1)"
  from Vector_copy_assign_Thrown [OF ha t] show "a1 = a" by simp
next
  fix a1 w1
  assume ha: "holds w a xs" and t: "Vector_copy_assign pa pb b (a, w) = Thrown (a1, w1)"
    and c: "Capacity a < Size b"
  from Vector_copy_assign_Thrown [OF ha t] c show "holds w1 a xs"
    by (simp add: Capacity_def Size_def)
qed

theorem copy_assignment_witness:
  "holds world_ab vec_a [10, 20] \<and> holds world_ab vec_b [30] \<and> separate vec_a vec_b
   \<and> (1 :: nat) \<noteq> 2
   \<and> Vector_copy_assign 1 1 vec_a (vec_a, world_ab) = Done () (vec_a, world_ab)
   \<and> Vector_copy_assign 1 2 vec_b (vec_a, world_ab)
       = Done () (vec_a\<lparr>m_size := 1\<rparr>,
           world_ab\<lparr>blocks := (\<lambda>_. [])(2 := [Obj 30, Raw], 3 := [Obj 30]), destroyed := 2\<rparr>)
   \<and> holds (world_ab\<lparr>blocks := (\<lambda>_. [])(2 := [Obj 30, Raw], 3 := [Obj 30]), destroyed := 2\<rparr>)
         (vec_a\<lparr>m_size := 1\<rparr>) [30]
   \<and> holds (world_ab\<lparr>blocks := (\<lambda>_. [])(2 := [Obj 30, Raw], 3 := [Obj 30]), destroyed := 2\<rparr>)
         vec_b [30]"
proof -
  have sep: "separate vec_a vec_b" by (simp add: separate_def vec_a_def vec_b_def)
  have ne: "(1 :: nat) \<noteq> 2" by simp
  note t = copy_assignment [OF holds_vec_a_ab holds_vec_b_ab sep, of 1 2]
  from t have self: "Vector_copy_assign 1 1 vec_a (vec_a, world_ab) = Done () (vec_a, world_ab)"
    by blast
  from t ne
  have "\<forall>a' w'. Vector_copy_assign 1 2 vec_b (vec_a, world_ab) = Done () (a', w') \<longrightarrow>
      holds w' a' [30] \<and> holds w' vec_b [30]"
    by blast
  from this [rule_format, OF assign_b_to_a]
  have h: "holds (world_ab\<lparr>blocks := (\<lambda>_. [])(2 := [Obj 30, Raw], 3 := [Obj 30]), destroyed := 2\<rparr>)
         (vec_a\<lparr>m_size := 1\<rparr>) [30]
     \<and> holds (world_ab\<lparr>blocks := (\<lambda>_. [])(2 := [Obj 30, Raw], 3 := [Obj 30]), destroyed := 2\<rparr>)
         vec_b [30]" .
  from holds_vec_a_ab holds_vec_b_ab sep ne self assign_b_to_a h show ?thesis
    by (intro conjI) simp_all
qed




text \<open>
  C6 (the code departs from the claim). After the exception of the run of C1 the vector
  has size 2 and slot 0 of its buffer holds no object: the invariant is broken.
\<close>

theorem Insert_trailing_throw_breaks_invariant:
  "vector_inv world_a vec_a
   \<and> Insert copying_T (2, 1) 30 (vec_a, world_a\<lparr>fail_in := Some 2\<rparr>)
       = Thrown (vec_a, world_a\<lparr>blocks := (\<lambda>_. [])(2 := [Raw, Obj 20]), next_addr := 4,
                  constructed := 5, destroyed := 4\<rparr>)
   \<and> \<not> vector_inv (world_a\<lparr>blocks := (\<lambda>_. [])(2 := [Raw, Obj 20]), next_addr := 4,
                  constructed := 5, destroyed := 4\<rparr>) vec_a"
  using Insert_trailing_copy_throws by (simp add: vector_inv_def vec_a_def world_a_def)

text \<open>
  C7. Take a sequence of \<open>PushBack\<close> and \<open>PopBack\<close> calls in which no \<open>PopBack\<close> meets an
  empty vector, and run any number \<open>k\<close> of its calls from an empty vector. Whenever the
  run returns, the vector holds the pushed values that are not yet popped, in push
  order, and its size is the number of pushes minus the number of pops so far. The run
  does return when no operation of \<open>T\<close> throws and the byte count of twice as many objects
  as were pushed is a \<open>size_t\<close> value, so that no request of a reallocation wraps.
\<close>

theorem PushBack_PopBack_sequence:
  "holds w v [] \<Longrightarrow> kept cs [] = Some ys \<Longrightarrow>
     (fail_in w = None \<longrightarrow> fits w (2 * pushes (take k cs)) \<longrightarrow>
        (\<exists>v' w'. run_calls tr (take k cs) (v, w) = Done () (v', w'))) \<and>
     (\<forall>v' w'. run_calls tr (take k cs) (v, w) = Done () (v', w') \<longrightarrow>
        (\<exists>zs. kept (take k cs) [] = Some zs \<and> holds w' v' zs \<and> contents w' v' = map Some zs) \<and>
        pops (take k cs) \<le> pushes (take k cs) \<and>
        Size v' = pushes (take k cs) - pops (take k cs))"
proof (intro conjI impI allI)
  assume h: "holds w v []" and k: "kept cs [] = Some ys" and f: "fail_in w = None"
    and fw: "fits w (2 * pushes (take k cs))"
  from kept_take [OF k, of k] obtain zs where z: "kept (take k cs) [] = Some zs" by blast
  from fw have "fits w (2 * (length ([] :: 'a list) + pushes (take k cs)))" by simp
  from run_calls_total [OF h f z this]
  show "\<exists>v' w'. run_calls tr (take k cs) (v, w) = Done () (v', w')" .
next
  fix v' w'
  assume h: "holds w v []" and d: "run_calls tr (take k cs) (v, w) = Done () (v', w')"
  from run_calls_post [OF h d] obtain zs where
    z: "kept (take k cs) [] = Some zs" and h': "holds w' v' zs"
    by blast
  from kept_counts [OF z] have c: "length zs + pops (take k cs) = pushes (take k cs)"
    by simp
  from z h' show "\<exists>zs. kept (take k cs) [] = Some zs \<and> holds w' v' zs \<and> contents w' v' = map Some zs"
    by (auto simp: holds_contents)
  from c show "pops (take k cs) \<le> pushes (take k cs)" by simp
  from c h' show "Size v' = pushes (take k cs) - pops (take k cs)"
    by (simp add: holds_Size)
qed

theorem PushBack_PopBack_sequence_witness:
  "holds empty_world Vector_default ([] :: nat list)
   \<and> kept [Push 10, Push 20, Pop, Push (30 :: nat)] [] = Some [10, 30]
   \<and> fits (empty_world :: nat world) (2 * pushes (take 3 [Push 10, Push 20, Pop, Push (30 :: nat)]))
   \<and> run_calls copying_T (take 3 [Push 10, Push 20, Pop, Push 30]) (Vector_default, empty_world)
       = Done () (\<lparr>m_data = \<lparr>m_buffer = 2, m_capacity = 2\<rparr>, m_size = 1\<rparr>,
           \<lparr>blocks = (\<lambda>_. [])(2 := [Obj 10, Raw]), next_addr = 3, fail_in = None,
             constructed = 3, destroyed = 2, sizeof_T = 4\<rparr>)
   \<and> kept (take 3 [Push 10, Push 20, Pop, Push (30 :: nat)]) [] = Some [10]
   \<and> contents \<lparr>blocks = (\<lambda>_. [])(2 := [Obj 10, Raw]), next_addr = 3, fail_in = None,
             constructed = 3, destroyed = 2, sizeof_T = 4\<rparr>
         \<lparr>m_data = \<lparr>m_buffer = 2, m_capacity = 2\<rparr>, m_size = 1\<rparr> = [Some (10 :: nat)]
   \<and> Size \<lparr>m_data = \<lparr>m_buffer = 2, m_capacity = 2\<rparr>, m_size = 1\<rparr>
       = pushes (take 3 [Push 10, Push 20, Pop, Push (30 :: nat)])
         - pops (take 3 [Push 10, Push 20, Pop, Push (30 :: nat)])"
proof -
  have k: "kept [Push 10, Push 20, Pop, Push (30 :: nat)] [] = Some [10, 30]"
    by simp
  have k3: "kept (take 3 [Push 10, Push 20, Pop, Push (30 :: nat)]) [] = Some [10]"
    by (simp add: eval_nat_numeral)
  have fw: "fits (empty_world :: nat world)
      (2 * pushes (take 3 [Push 10, Push 20, Pop, Push (30 :: nat)]))"
    by (simp add: eval_nat_numeral empty_world_def fits_few)
  from PushBack_PopBack_sequence [OF holds_default k, where tr = copying_T and k = 3]
    run_three_calls k3
  show ?thesis
    using holds_default k fw by simp
qed

text \<open>
  C8. \<open>Insert\<close> of a value at a valid index \<open>i\<close> followed by \<open>Erase\<close> at index \<open>i\<close> of the
  updated vector: whenever both calls return, the vector holds the original sequence
  and has the original size. Both do return when no operation of \<open>T\<close> throws and, the
  vector being full, the byte count of \<open>max 1 (2 * size)\<close> objects is a \<open>size_t\<close> value.
\<close>

theorem Insert_then_Erase:
  "holds w v xs \<Longrightarrow> i \<le> Size v \<Longrightarrow>
     (fail_in w = None \<longrightarrow> (Size v = Capacity v \<longrightarrow> fits w (max 1 (Size v * 2))) \<longrightarrow>
        (\<exists>p v1 w1 q v2 w2. Insert tr (ptr_add (vbegin v) i) x (v, w) = Done p (v1, w1)
           \<and> Erase tr (ptr_add (vbegin v1) i) (v1, w1) = Done q (v2, w2))) \<and>
     (\<forall>p v1 w1 q v2 w2.
        Insert tr (ptr_add (vbegin v) i) x (v, w) = Done p (v1, w1) \<longrightarrow>
        Erase tr (ptr_add (vbegin v1) i) (v1, w1) = Done q (v2, w2) \<longrightarrow>
          p = ptr_add (vbegin v1) i \<and> holds w1 v1 (take i xs @ x # drop i xs) \<and>
          holds w2 v2 xs \<and> Size v2 = Size v \<and> contents w2 v2 = contents w v)"
proof (intro conjI impI allI)
  assume h: "holds w v xs" and i: "i \<le> Size v" and f: "fail_in w = None"
    and fw: "Size v = Capacity v \<longrightarrow> fits w (max 1 (Size v * 2))"
  from h i have il: "i \<le> length xs" by (simp add: holds_Size)
  from fw holds_Size [OF h]
  have fc: "length xs = m_capacity (m_data v) \<longrightarrow> fits w (CalcNewCapacity v)"
    by (simp add: CalcNewCapacity_max Capacity_def)
  from Emplace_total [OF h f il fc, of tr x] obtain v1 w1 where
    e: "Emplace tr (m_buffer (m_data v), i) x (v, w) = Done (m_buffer (m_data v1), i) (v1, w1)"
    and h1: "holds w1 v1 (take i xs @ x # drop i xs)" and f1: "fail_in w1 = None"
    by blast
  from il have "i < length (take i xs @ x # drop i xs)" by simp
  from Erase_total [OF h1 f1 this, of tr] e
  show "\<exists>p v1 w1 q v2 w2. Insert tr (ptr_add (vbegin v) i) x (v, w) = Done p (v1, w1)
           \<and> Erase tr (ptr_add (vbegin v1) i) (v1, w1) = Done q (v2, w2)"
    by (auto simp: Insert_def cursor_at)
next
  fix p v1 w1 q v2 w2
  assume h: "holds w v xs" and i: "i \<le> Size v"
    and d1: "Insert tr (ptr_add (vbegin v) i) x (v, w) = Done p (v1, w1)"
    and d2: "Erase tr (ptr_add (vbegin v1) i) (v1, w1) = Done q (v2, w2)"
  from h i have il: "i \<le> length xs" by (simp add: holds_Size)
  from d1 have e: "Emplace tr (m_buffer (m_data v), i) x (v, w) = Done p (v1, w1)"
    by (simp add: Insert_def cursor_at)
  from Emplace_post [OF h il e]
  have h1: "holds w1 v1 (take i xs @ x # drop i xs)" and p: "p = (m_buffer (m_data v1), i)"
    by simp_all
  from il have lt: "i < length (take i xs @ x # drop i xs)" by simp
  from d2 have e2: "Erase tr (m_buffer (m_data v1), i) (v1, w1) = Done q (v2, w2)"
    by (simp add: cursor_at)
  from Erase_post [OF h1 lt e2] il have h2: "holds w2 v2 xs"
    by (simp add: take_insert_drop)
  from p show "p = ptr_add (vbegin v1) i" by (simp add: cursor_at)
  from h1 show "holds w1 v1 (take i xs @ x # drop i xs)" .
  from h2 show "holds w2 v2 xs" .
  from h2 h show "Size v2 = Size v" by (simp add: holds_Size)
  from h2 h show "contents w2 v2 = contents w v" by (simp add: holds_contents)
qed

theorem Insert_then_Erase_witness:
  "holds world_a vec_a [10, 20] \<and> 1 \<le> Size vec_a \<and> fits world_a (max 1 (Size vec_a * 2))
   \<and> Insert copying_T (ptr_add (vbegin vec_a) 1) 30 (vec_a, world_a)
     = Done (3, 1) (\<lparr>m_data = \<lparr>m_buffer = 3, m_capacity = 4\<rparr>, m_size = 3\<rparr>,
         world_a\<lparr>blocks := (\<lambda>_. [])(3 := [Obj 10, Obj 30, Obj 20, Raw]), next_addr := 4,
           constructed := 6, destroyed := 3\<rparr>)
   \<and> Erase copying_T (ptr_add (vbegin \<lparr>m_data = \<lparr>m_buffer = 3, m_capacity = 4\<rparr>, m_size = 3\<rparr>) 1)
       (\<lparr>m_data = \<lparr>m_buffer = 3, m_capacity = 4\<rparr>, m_size = 3\<rparr>,
         world_a\<lparr>blocks := (\<lambda>_. [])(3 := [Obj 10, Obj 30, Obj 20, Raw]), next_addr := 4,
           constructed := 6, destroyed := 3\<rparr>)
     = Done (3, 1) (\<lparr>m_data = \<lparr>m_buffer = 3, m_capacity = 4\<rparr>, m_size = 2\<rparr>,
         world_a\<lparr>blocks := (\<lambda>_. [])(3 := [Obj 10, Obj 20, Raw, Raw]), next_addr := 4,
           constructed := 6, destroyed := 4\<rparr>)
   \<and> holds (world_a\<lparr>blocks := (\<lambda>_. [])(3 := [Obj 10, Obj 20, Raw, Raw]), next_addr := 4,
           constructed := 6, destroyed := 4\<rparr>)
         \<lparr>m_data = \<lparr>m_buffer = 3, m_capacity = 4\<rparr>, m_size = 2\<rparr> [10, 20]
   \<and> contents (world_a\<lparr>blocks := (\<lambda>_. [])(3 := [Obj 10, Obj 20, Raw, Raw]), next_addr := 4,
           constructed := 6, destroyed := 4\<rparr>)
         \<lparr>m_data = \<lparr>m_buffer = 3, m_capacity = 4\<rparr>, m_size = 2\<rparr> = contents world_a vec_a"
proof -
  have i: "1 \<le> Size vec_a" by (simp add: Size_def vec_a_def)
  have fw: "fits world_a (max 1 (Size vec_a * 2))"
    by (simp add: Size_def vec_a_def world_a_def fits_few)
  from Insert_then_Erase [OF holds_vec_a i, of copying_T 30] Insert_middle Erase_middle
  show ?thesis
    using holds_vec_a i fw by simp
qed




text \<open>
  C10. \<open>Erase\<close> at an index \<open>i\<close> below the size returns when no operation of \<open>T\<close> throws,
  and whenever it returns, the cursor it returns is position \<open>i\<close> of the updated vector:
  it addresses the element that followed the erased one, or it is the end cursor when
  the last element was erased.
\<close>

theorem Erase_returns_position:
  "holds w v xs \<Longrightarrow> i < Size v \<Longrightarrow>
     (fail_in w = None \<longrightarrow>
        (\<exists>p v' w'. Erase tr (ptr_add (vbegin v) i) (v, w) = Done p (v', w'))) \<and>
     (\<forall>p v' w'. Erase tr (ptr_add (vbegin v) i) (v, w) = Done p (v', w') \<longrightarrow>
        p = ptr_add (vbegin v') i \<and> holds w' v' (take i xs @ drop (Suc i) xs) \<and>
        (if Suc i < Size v
         then slot_at w' p = Some (Obj (xs ! Suc i)) \<and> element w' v' i = Some (xs ! Suc i)
         else Some p = vend v'))"
proof (intro conjI impI allI)
  assume h: "holds w v xs" and i: "i < Size v" and f: "fail_in w = None"
  from h i have il: "i < length xs" by (simp add: holds_Size)
  from Erase_total [OF h f il, of tr]
  show "\<exists>p v' w'. Erase tr (ptr_add (vbegin v) i) (v, w) = Done p (v', w')"
    by (auto simp: cursor_at)
next
  fix p v' w'
  assume h: "holds w v xs" and i: "i < Size v"
    and d: "Erase tr (ptr_add (vbegin v) i) (v, w) = Done p (v', w')"
  from h i have il: "i < length xs" by (simp add: holds_Size)
  from d have e: "Erase tr (m_buffer (m_data v), i) (v, w) = Done p (v', w')"
    by (simp add: cursor_at)
  from Erase_post [OF h il e]
  have h': "holds w' v' (take i xs @ drop (Suc i) xs)" and p: "p = (m_buffer (m_data v'), i)"
    by simp_all
  from p show "p = ptr_add (vbegin v') i" by (simp add: cursor_at)
  from h' show "holds w' v' (take i xs @ drop (Suc i) xs)" .
  show "if Suc i < Size v
         then slot_at w' p = Some (Obj (xs ! Suc i)) \<and> element w' v' i = Some (xs ! Suc i)
         else Some p = vend v'"
  proof (cases "Suc i < Size v")
    case True
    with h have s: "Suc i < length xs" by (simp add: holds_Size)
    then have n: "(take i xs @ drop (Suc i) xs) ! i = xs ! Suc i"
      by (simp add: nth_append min_absorb2)
    from s have l: "i < length (take i xs @ drop (Suc i) xs)" by simp
    from holds_element [OF h' l] n have el: "element w' v' i = Some (xs ! Suc i)" by simp
    from holds_slot [OF h' l] n p have "slot_at w' p = Some (Obj (xs ! Suc i))"
      by simp
    with True el show ?thesis by simp
  next
    case False
    with h il have "Suc i = length xs" by (simp add: holds_Size)
    with h' p False show ?thesis
      by (auto simp add: holds_def vend_def RawMemory_plus_def min_absorb2)
  qed
qed

theorem Erase_returns_position_witness:
  "holds world_a vec_a [10, 20] \<and> 0 < Size vec_a \<and> 1 < Size vec_a
   \<and> Erase copying_T (ptr_add (vbegin vec_a) 0) (vec_a, world_a)
       = Done (2, 0) (vec_a\<lparr>m_size := 1\<rparr>,
           world_a\<lparr>blocks := (\<lambda>_. [])(2 := [Obj 20, Raw]), destroyed := 2\<rparr>)
   \<and> ptr_add (vbegin (vec_a\<lparr>m_size := 1\<rparr>)) 0 = (2, 0)
   \<and> slot_at (world_a\<lparr>blocks := (\<lambda>_. [])(2 := [Obj 20, Raw]), destroyed := 2\<rparr>) (2, 0)
       = Some (Obj ([10, 20] ! Suc 0))
   \<and> Erase copying_T (ptr_add (vbegin vec_a) 1) (vec_a, world_a)
       = Done (2, 1) (vec_a\<lparr>m_size := 1\<rparr>,
           world_a\<lparr>blocks := (\<lambda>_. [])(2 := [Obj 10, Raw]), destroyed := 2\<rparr>)
   \<and> vend (vec_a\<lparr>m_size := 1\<rparr>) = Some (2, 1)"
proof -
  have i0: "0 < Size vec_a" and i1: "1 < Size vec_a" by (simp_all add: Size_def vec_a_def)
  from Erase_returns_position [OF holds_vec_a i0, of copying_T] Erase_first i1
  have a: "ptr_add (vbegin (vec_a\<lparr>m_size := 1\<rparr>)) 0 = (2, 0)
     \<and> slot_at (world_a\<lparr>blocks := (\<lambda>_. [])(2 := [Obj 20, Raw]), destroyed := 2\<rparr>) (2, 0)
       = Some (Obj ([10, 20] ! Suc 0))"
    by (simp add: cursor_at vec_a_def)
  from Erase_returns_position [OF holds_vec_a i1, of copying_T] Erase_last
  have b: "vend (vec_a\<lparr>m_size := 1\<rparr>) = Some (2, 1)"
    by (simp add: Size_def vec_a_def cursor_at)
  show ?thesis
    using holds_vec_a i0 i1 Erase_first Erase_last a b by simp
qed

end
